theory Spec2Isabelle
  imports Main "HOL-Library.Word" "HOL-Library.Signed_Division"
begin

section \<open>The memory-trace client (api/samples/memtrace\_x86.c)\<close>

text \<open>
  The client records one \<open>mem_ref_t\<close> per executed application memory reference in a
  per-thread buffer and dumps the buffer to the thread's log file when it is full and
  at thread exit.  The development follows the 64-bit build: pointers, \<open>size_t\<close>,
  \<open>ptr_int_t\<close> and \<open>uint64\<close> are 64-bit words with wrap-around arithmetic.
\<close>

subsection \<open>Records of the trace\<close>

type_synonym ptr = "64 word"

text \<open>
  \<open>struct _mem_ref_t { bool write; void *addr; size_t size; app_pc pc; }\<close>; the members
  \<open>write\<close> and \<open>size\<close> carry the suffix \<open>_m\<close> because the plain names are taken.
\<close>

record mem_ref_t =
  write_m :: bool
  addr :: ptr
  size_m :: ptr
  pc :: ptr

text \<open>
  \<open>sizeof(mem_ref_t)\<close> in the 64-bit build (the \<open>bool\<close> padded to 8 bytes, then three
  8-byte members); \<open>MEM_BUF_SIZE\<close> is \<open>sizeof(mem_ref_t) * MAX_NUM_MEM_REFS\<close>.  The
  build-time constant \<open>MAX_NUM_MEM_REFS\<close> (8192 in the source) is the parameter \<open>c\<close> of
  every function that uses it.
\<close>

definition sizeof_mem_ref_t :: nat where
  "sizeof_mem_ref_t = 32"

definition MAX_NUM_MEM_REFS :: nat where
  "MAX_NUM_MEM_REFS = 8192"

definition MEM_BUF_SIZE :: "nat \<Rightarrow> nat" where
  "MEM_BUF_SIZE c = sizeof_mem_ref_t * c"

text \<open>The record that \<open>memset(buf, 0, ...)\<close> leaves in every slot of the buffer.\<close>

definition zero_mem_ref :: mem_ref_t where
  "zero_mem_ref = \<lparr>write_m = False, addr = 0, size_m = 0, pc = 0\<rparr>"

subsection \<open>The log file\<close>

text \<open>
  With \<open>READABLE_TRACE\<close> defined, a log holds two kinds of lines: the header
  \<open>"Format: <instr address>,<(r)ead/(w)rite>,<data size>,<data address>"\<close> and one line
  \<open>PFX",%c,%d,"PFX\<close> per reference, whose arguments are kept in the order of the call:
  pc, the character \<open>w\<close> or \<open>r\<close>, size, addr.  A line is the tuple of the values
  printed, not the text that the conversions produce.
\<close>

datatype log_line = Format_line | Ref_line ptr char ptr ptr

record file_t =
  lines :: "log_line list"
  writable :: bool

text \<open>
  Modelled from the spec: \<open>dr_fprintf\<close> belongs to the framework and is not part of the
  sample.  A write to the output sink either appends the line or fails and leaves the
  file as it was; the flag \<open>writable\<close> says which.  The call's result is dropped by
  every caller in the sample, so the model returns the file only.
\<close>

definition dr_fprintf :: "file_t \<Rightarrow> log_line \<Rightarrow> file_t" where
  "dr_fprintf f l = (if writable f then f\<lparr>lines := lines f @ [l]\<rparr> else f)"

subsection \<open>Thread-private data\<close>

text \<open>
  \<open>per_thread_t\<close> (the member \<open>cache\<close> is never read or written by the sample and is
  left out).  \<open>buf_end\<close> holds the negated address of the end of the buffer.
\<close>

record per_thread_t =
  buf_ptr :: ptr
  buf_base :: ptr
  buf_end :: ptr
  log :: file_t
  num_refs :: "64 word"

text \<open>
  A thread is its \<open>per_thread_t\<close> together with the block of \<open>MEM_BUF_SIZE\<close> bytes that
  \<open>buf_base\<close> points to, seen as the array of \<open>mem_ref_t\<close> that \<open>memtrace\<close> reads.
\<close>

record thread = per_thread_t +
  buf :: "mem_ref_t list"

subsection \<open>\<open>event_thread_init\<close>\<close>

text \<open>
  \<open>base\<close> is the address \<open>dr_thread_alloc\<close> returns for the buffer, \<open>junk\<close> the
  (uninitialised) content of the fresh block and \<open>f\<close> the file \<open>log_file_open\<close> returns.
\<close>

definition event_thread_init :: "nat \<Rightarrow> ptr \<Rightarrow> (nat \<Rightarrow> mem_ref_t) \<Rightarrow> file_t \<Rightarrow> thread" where
  "event_thread_init c base junk f =
     \<lparr>buf_ptr = base,
      buf_base = base,
      buf_end = - (base + of_nat (MEM_BUF_SIZE c)),
      log = f,
      num_refs = 0,
      buf = map junk [0..<c]\<rparr>"

subsection \<open>\<open>memtrace\<close>: dumping the buffer\<close>

definition ref_line :: "mem_ref_t \<Rightarrow> log_line" where
  "ref_line r = Ref_line (pc r) (if write_m r then CHR ''w'' else CHR ''r'') (size_m r) (addr r)"

text \<open>The loop \<open>for (i = 0; i < num_refs; i++) { dr_fprintf(...); ++mem_ref; }\<close>.\<close>

primrec dump_refs :: "mem_ref_t list \<Rightarrow> file_t \<Rightarrow> file_t" where
  "dump_refs [] f = f"
| "dump_refs (r # rs) f = dump_refs rs (dr_fprintf f (ref_line r))"

text \<open>
  \<open>num_refs = (int)((mem_ref_t *)data->buf_ptr - mem_ref)\<close>: the signed pointer
  difference in units of \<open>sizeof(mem_ref_t)\<close>, truncated to \<open>int\<close>.
\<close>

definition pending_refs :: "'a thread_scheme \<Rightarrow> int" where
  "pending_refs data =
     sint (word_of_int (sint (buf_ptr data - buf_base data) sdiv int sizeof_mem_ref_t) :: 32 word)"

text \<open>
  \<open>memtrace\<close> reads \<open>num_refs\<close> records from the start of the block, writes the header
  and one line per record, clears \<open>MEM_BUF_SIZE\<close> bytes, adds \<open>num_refs\<close> to the thread's
  counter and rewinds \<open>buf_ptr\<close>.  Reading or clearing beyond the allocated block is
  undefined in C and is \<open>None\<close> here.
\<close>

definition memtrace :: "nat \<Rightarrow> 'a thread_scheme \<Rightarrow> 'a thread_scheme option" where
  "memtrace c data =
     (let num_refs' = pending_refs data in
      if length (buf data) < nat num_refs' \<or> length (buf data) < c then None
      else
        let f = dr_fprintf (log data) Format_line;
            f = dump_refs (take (nat num_refs') (buf data)) f
        in Some (data\<lparr>log := f,
                       buf := replicate c zero_mem_ref @ drop c (buf data),
                       num_refs := num_refs data + word_of_int num_refs',
                       buf_ptr := buf_base data\<rparr>))"

text \<open>
  \<open>clean_call\<close> dumps the buffer of the current thread (the thread whose state it is
  given).
\<close>

definition clean_call :: "nat \<Rightarrow> 'a thread_scheme \<Rightarrow> 'a thread_scheme option" where
  "clean_call c data = memtrace c data"

subsection \<open>\<open>event_thread_exit\<close> and the global counter\<close>

text \<open>
  The statics \<open>mutex\<close> and \<open>num_refs\<close> of the client (the global counter carries the suffix
  \<open>_g\<close>: the thread's member has the plain name).
\<close>

record globals =
  mutex_held :: bool
  num_refs_g :: "64 word"

text \<open>
  Modelled from the spec: \<open>dr_mutex_lock\<close> and \<open>dr_mutex_unlock\<close> belong to the framework
  and are not part of the sample.  The lock is acquired before the addition and
  released after it; a thread that finds the mutex held does not go on (\<open>None\<close>).
\<close>

definition dr_mutex_lock :: "globals \<Rightarrow> globals option" where
  "dr_mutex_lock g = (if mutex_held g then None else Some (g\<lparr>mutex_held := True\<rparr>))"

definition dr_mutex_unlock :: "globals \<Rightarrow> globals" where
  "dr_mutex_unlock g = g\<lparr>mutex_held := False\<rparr>"

text \<open>
  \<open>event_thread_exit\<close>: the last dump, then the thread's counter is added to the global
  one between lock and unlock; the log file is closed and the thread's memory freed.
  The result is the new global state and the thread's data as they are when the file is
  closed.
\<close>

definition event_thread_exit ::
    "nat \<Rightarrow> globals \<Rightarrow> 'a thread_scheme \<Rightarrow> (globals \<times> 'a thread_scheme) option" where
  "event_thread_exit c g data0 =
     (case memtrace c data0 of
        None \<Rightarrow> None
      | Some data \<Rightarrow>
          (case dr_mutex_lock g of
             None \<Rightarrow> None
           | Some g \<Rightarrow>
               let g = g\<lparr>num_refs_g := num_refs_g g + num_refs data\<rparr>;
                   g = dr_mutex_unlock g
               in Some (g, data)))"

subsection \<open>Application instructions\<close>

text \<open>
  Modelled from the spec: the framework's query surface is not part of the sample, and
  an instruction is given by the answers to the queries the sample makes.  For an
  operand these are \<open>opnd_is_memory_reference\<close>, \<open>drutil_opnd_mem_size_in_bytes\<close> and
  the address that the code inserted by \<open>drutil_insert_get_mem_addr\<close> computes when it
  runs; for an instruction, \<open>instr_get_app_pc\<close>, \<open>instr_reads_memory\<close>,
  \<open>instr_writes_memory\<close> and the source and destination operands (\<open>instr_num_srcs\<close>,
  \<open>instr_get_src\<close>, \<open>instr_num_dsts\<close>, \<open>instr_get_dst\<close>).  The answers for the
  instruction and for its operands are independent inputs.  The size is the value
  that the fast path stores in the member \<open>size\<close>.  \<open>NULL\<close> is the address 0.
\<close>

record opnd_t =
  is_memory_reference :: bool
  mem_addr :: ptr
  mem_size_in_bytes :: ptr

record instr_t =
  app_pc :: ptr
  reads_memory :: bool
  writes_memory :: bool
  srcs :: "opnd_t list"
  dsts :: "opnd_t list"

subsection \<open>The inserted code\<close>

text \<open>
  The instructions that \<open>instrument_mem\<close> and \<open>code_cache_init\<close> insert.  A memory
  operand is a base register and a displacement, the \<open>offsetof\<close> the source passes.
  \<open>Mov_ld\<close> and \<open>Mov_st\<close> load and store a member of a \<open>per_thread_t\<close>.  \<open>Mov_st_ref\<close>
  stores a register into a member of a \<open>mem_ref_t\<close>; \<open>Mov_imm_ref\<close> stores an immediate
  there and stands for \<open>INSTR_CREATE_mov_imm\<close> (\<open>write\<close>), \<open>INSTR_CREATE_mov_st\<close> with an
  immediate source (\<open>size\<close>) and the one or two instructions of
  \<open>instrlist_insert_mov_immed_ptrsz\<close> (\<open>pc\<close>).  \<open>Lea dst base index scale disp\<close> is
  \<open>lea dst, [base + index * scale + disp]\<close>; \<open>Jecxz\<close> jumps when \<open>XCX\<close> is zero.
  \<open>Save_reg\<close>, \<open>Restore_reg\<close>, \<open>Get_mem_addr\<close>, \<open>Read_tls_field\<close> and \<open>Clean_call\<close> stand for
  the code that \<open>dr_save_reg\<close>, \<open>dr_restore_reg\<close>, \<open>drutil_insert_get_mem_addr\<close>,
  \<open>drmgr_insert_read_tls_field\<close> and \<open>dr_insert_clean_call\<close> insert.
\<close>

datatype reg_id_t = DR_REG_XBX | DR_REG_XCX

datatype spill_slot_t = SPILL_SLOT_2 | SPILL_SLOT_3

datatype label = Call_label | Restore_label

datatype per_thread_member = Buf_ptr | Buf_end

datatype mem_ref_member = Write | Addr | Size | Pc

text \<open>
  The offsets of the members in the 64-bit build, in the order of their declaration:
  every member of \<open>mem_ref_t\<close> takes 8 bytes (the \<open>bool\<close> is padded), and \<open>buf_ptr\<close>,
  \<open>buf_base\<close>, \<open>buf_end\<close> are the first three pointer-sized members of \<open>per_thread_t\<close>.
\<close>

fun offsetof_mem_ref_t :: "mem_ref_member \<Rightarrow> nat" where
  "offsetof_mem_ref_t Write = 0"
| "offsetof_mem_ref_t Addr = 8"
| "offsetof_mem_ref_t Size = 16"
| "offsetof_mem_ref_t Pc = 24"

fun offsetof_per_thread_t :: "per_thread_member \<Rightarrow> nat" where
  "offsetof_per_thread_t Buf_ptr = 0"
| "offsetof_per_thread_t Buf_end = 16"

datatype meta_instr =
    Save_reg reg_id_t spill_slot_t
  | Restore_reg reg_id_t spill_slot_t
  | Get_mem_addr opnd_t reg_id_t reg_id_t
  | Read_tls_field reg_id_t
  | Mov_ld reg_id_t reg_id_t nat
  | Mov_st reg_id_t nat reg_id_t
  | Mov_imm_ref reg_id_t nat ptr
  | Mov_st_ref reg_id_t nat reg_id_t
  | Lea reg_id_t reg_id_t "reg_id_t option" nat nat
  | Jecxz label
  | Jmp label
  | Label label
  | Mov_imm_label reg_id_t label
  | Jmp_code_cache
  | Clean_call
  | Jmp_ind reg_id_t

text \<open>
  \<open>instrument_mem\<close>: the code inserted before the instruction \<open>inst\<close> for its operand
  \<open>pos\<close>, in the order of the insertions (each goes immediately before \<open>inst\<close>, so the
  order of the calls is the order of the code).  \<open>event_bb_insert\<close> calls it for
  positions below the number of operands only.
\<close>

definition instrument_mem :: "instr_t \<Rightarrow> nat \<Rightarrow> bool \<Rightarrow> meta_instr list" where
  "instrument_mem inst pos write =
     (let reg1 = DR_REG_XBX;
          reg2 = DR_REG_XCX;
          ref = (if write then dsts inst ! pos else srcs inst ! pos)
      in [Save_reg reg1 SPILL_SLOT_2,
          Save_reg reg2 SPILL_SLOT_3,
          Get_mem_addr ref reg1 reg2,
          Read_tls_field reg2,
          Mov_ld reg2 reg2 (offsetof_per_thread_t Buf_ptr),
          Mov_imm_ref reg2 (offsetof_mem_ref_t Write) (of_bool write),
          Mov_st_ref reg2 (offsetof_mem_ref_t Addr) reg1,
          Mov_imm_ref reg2 (offsetof_mem_ref_t Size) (mem_size_in_bytes ref),
          Mov_imm_ref reg2 (offsetof_mem_ref_t Pc) (app_pc inst),
          Lea reg2 reg2 None 0 sizeof_mem_ref_t,
          Read_tls_field reg1,
          Mov_st reg1 (offsetof_per_thread_t Buf_ptr) reg2,
          Mov_ld reg1 reg1 (offsetof_per_thread_t Buf_end),
          Lea reg2 reg1 (Some reg2) 1 0,
          Jecxz Call_label,
          Jmp Restore_label,
          Label Call_label,
          Mov_imm_label reg2 Restore_label,
          Jmp_code_cache,
          Label Restore_label,
          Restore_reg reg1 SPILL_SLOT_2,
          Restore_reg reg2 SPILL_SLOT_3])"

text \<open>
  \<open>event_bb_insert\<close>: all the code inserted before one application instruction.
\<close>

definition event_bb_insert :: "instr_t \<Rightarrow> meta_instr list" where
  "event_bb_insert inst =
     (if app_pc inst = 0 then []
      else
        (if reads_memory inst
         then concat (map (\<lambda>i. if is_memory_reference (srcs inst ! i)
                                then instrument_mem inst i False else [])
                          [0..<length (srcs inst)])
         else []) @
        (if writes_memory inst
         then concat (map (\<lambda>i. if is_memory_reference (dsts inst ! i)
                                then instrument_mem inst i True else [])
                          [0..<length (dsts inst)])
         else []))"

text \<open>
  \<open>code_cache_init\<close>: the shared lean procedure, a clean call of \<open>clean_call\<close> followed
  by an indirect jump through \<open>XCX\<close>.
\<close>

definition code_cache :: "meta_instr list" where
  "code_cache = [Clean_call, Jmp_ind DR_REG_XCX]"

subsection \<open>Running the inserted code\<close>

text \<open>
  The state in which inserted code runs: the thread's data and buffer, the two
  registers the code steals, the two spill slots it saves them in, and the address of
  the thread's \<open>per_thread_t\<close> that the TLS field holds.
\<close>

record machine = thread +
  xbx :: ptr
  xcx :: ptr
  slot_2 :: ptr
  slot_3 :: ptr
  tls_field :: ptr

fun get_reg :: "reg_id_t \<Rightarrow> machine \<Rightarrow> ptr" where
  "get_reg DR_REG_XBX s = xbx s"
| "get_reg DR_REG_XCX s = xcx s"

fun set_reg :: "reg_id_t \<Rightarrow> ptr \<Rightarrow> machine \<Rightarrow> machine" where
  "set_reg DR_REG_XBX v s = s\<lparr>xbx := v\<rparr>"
| "set_reg DR_REG_XCX v s = s\<lparr>xcx := v\<rparr>"

fun get_slot :: "spill_slot_t \<Rightarrow> machine \<Rightarrow> ptr" where
  "get_slot SPILL_SLOT_2 s = slot_2 s"
| "get_slot SPILL_SLOT_3 s = slot_3 s"

fun set_slot :: "spill_slot_t \<Rightarrow> ptr \<Rightarrow> machine \<Rightarrow> machine" where
  "set_slot SPILL_SLOT_2 v s = s\<lparr>slot_2 := v\<rparr>"
| "set_slot SPILL_SLOT_3 v s = s\<lparr>slot_3 := v\<rparr>"

text \<open>
  Labels are addresses in the code cache; the model gives the two labels of a fast
  path distinct non-null addresses, and \<open>label_at\<close> reads an address back.
\<close>

fun label_pc :: "label \<Rightarrow> ptr" where
  "label_pc Call_label = 1"
| "label_pc Restore_label = 2"

definition label_at :: "ptr \<Rightarrow> label option" where
  "label_at a =
     (if a = label_pc Call_label then Some Call_label
      else if a = label_pc Restore_label then Some Restore_label
      else None)"

text \<open>
  A store through a \<open>mem_ref_t\<close> pointer \<open>a\<close> with displacement \<open>d\<close> hits the member at
  offset \<open>d\<close> of the record of the block that starts at \<open>a\<close>.  A pointer that is not the
  start of a record of the block, or a displacement that is not the offset of a
  member, writes memory the model does not have: \<open>None\<close>.
\<close>

definition mem_ref_member_at :: "nat \<Rightarrow> mem_ref_member option" where
  "mem_ref_member_at d =
     (if d = offsetof_mem_ref_t Write then Some Write
      else if d = offsetof_mem_ref_t Addr then Some Addr
      else if d = offsetof_mem_ref_t Size then Some Size
      else if d = offsetof_mem_ref_t Pc then Some Pc
      else None)"

definition per_thread_member_at :: "nat \<Rightarrow> per_thread_member option" where
  "per_thread_member_at d =
     (if d = offsetof_per_thread_t Buf_ptr then Some Buf_ptr
      else if d = offsetof_per_thread_t Buf_end then Some Buf_end
      else None)"

definition slot_of :: "'a thread_scheme \<Rightarrow> ptr \<Rightarrow> nat option" where
  "slot_of s a =
     (let off = unat (a - buf_base s) in
      if off mod sizeof_mem_ref_t = 0 \<and> off div sizeof_mem_ref_t < length (buf s)
      then Some (off div sizeof_mem_ref_t) else None)"

fun set_member :: "mem_ref_member \<Rightarrow> ptr \<Rightarrow> mem_ref_t \<Rightarrow> mem_ref_t" where
  "set_member Write v r = r\<lparr>write_m := (v \<noteq> 0)\<rparr>"
| "set_member Addr v r = r\<lparr>addr := v\<rparr>"
| "set_member Size v r = r\<lparr>size_m := v\<rparr>"
| "set_member Pc v r = r\<lparr>pc := v\<rparr>"

definition store_ref :: "ptr \<Rightarrow> nat \<Rightarrow> ptr \<Rightarrow> machine \<Rightarrow> machine option" where
  "store_ref a d v s =
     (case slot_of s a of
        None \<Rightarrow> None
      | Some i \<Rightarrow>
          (case mem_ref_member_at d of
             None \<Rightarrow> None
           | Some m \<Rightarrow> Some (s\<lparr>buf := (buf s)[i := set_member m v (buf s ! i)]\<rparr>)))"

fun load_member :: "per_thread_member \<Rightarrow> machine \<Rightarrow> ptr" where
  "load_member Buf_ptr s = buf_ptr s"
| "load_member Buf_end s = buf_end s"

fun store_member :: "per_thread_member \<Rightarrow> ptr \<Rightarrow> machine \<Rightarrow> machine" where
  "store_member Buf_ptr v s = s\<lparr>buf_ptr := v\<rparr>"
| "store_member Buf_end v s = s\<lparr>buf_end := v\<rparr>"

text \<open>
  The lean procedure runs straight to its indirect jump and hands back the label it
  jumps to.  The clean call saves and restores the whole context around \<open>memtrace\<close>,
  so the registers are as before.
\<close>

fun exec_code_cache :: "nat \<Rightarrow> meta_instr list \<Rightarrow> machine \<Rightarrow> (label \<times> machine) option" where
  "exec_code_cache c (Clean_call # is) s =
     (case clean_call c s of None \<Rightarrow> None | Some s' \<Rightarrow> exec_code_cache c is s')"
| "exec_code_cache c (Jmp_ind r # is) s =
     (case label_at (get_reg r s) of None \<Rightarrow> None | Some l \<Rightarrow> Some (l, s))"
| "exec_code_cache c is s = None"

text \<open>
  Modelled from the spec: what the code inserted by the framework's routines does when
  it runs (a register saved in its spill slot and restored from it, the operand's
  address computed into the first register, the TLS field read into a register, the
  context preserved around the clean call) is not part of the sample.
  \<open>exec c j is s\<close> runs the inserted code \<open>is\<close>.  While \<open>j\<close> is \<open>Some l\<close> a jump to \<open>l\<close>
  is under way and instructions are skipped up to the next \<open>Label l\<close> (all jumps of
  the inserted code go forward); a jump whose label is missing, a load or store
  through a pointer that is not the one the code expects, and a failing clean call
  give \<open>None\<close>.  A memory operand of type \<open>per_thread_t\<close> is valid when its base
  register holds the TLS field and its displacement is the offset of \<open>buf_ptr\<close> or
  \<open>buf_end\<close>.
\<close>

fun exec :: "nat \<Rightarrow> label option \<Rightarrow> meta_instr list \<Rightarrow> machine \<Rightarrow> machine option" where
  "exec c None [] s = Some s"
| "exec c (Some l) [] s = None"
| "exec c (Some l) (i # is) s =
     (if i = Label l then exec c None is s else exec c (Some l) is s)"
| "exec c None (Save_reg r sl # is) s = exec c None is (set_slot sl (get_reg r s) s)"
| "exec c None (Restore_reg r sl # is) s = exec c None is (set_reg r (get_slot sl s) s)"
| "exec c None (Get_mem_addr ref dst scratch # is) s =
     exec c None is (set_reg dst (mem_addr ref) s)"
| "exec c None (Read_tls_field r # is) s = exec c None is (set_reg r (tls_field s) s)"
| "exec c None (Mov_ld dst base d # is) s =
     (case (if get_reg base s = tls_field s then per_thread_member_at d else None) of
        None \<Rightarrow> None
      | Some m \<Rightarrow> exec c None is (set_reg dst (load_member m s) s))"
| "exec c None (Mov_st base d src # is) s =
     (case (if get_reg base s = tls_field s then per_thread_member_at d else None) of
        None \<Rightarrow> None
      | Some m \<Rightarrow> exec c None is (store_member m (get_reg src s) s))"
| "exec c None (Mov_imm_ref base d v # is) s =
     (case store_ref (get_reg base s) d v s of
        None \<Rightarrow> None | Some s' \<Rightarrow> exec c None is s')"
| "exec c None (Mov_st_ref base d src # is) s =
     (case store_ref (get_reg base s) d (get_reg src s) s of
        None \<Rightarrow> None | Some s' \<Rightarrow> exec c None is s')"
| "exec c None (Lea dst base index scale disp # is) s =
     exec c None is
       (set_reg dst
          (get_reg base s
             + (case index of None \<Rightarrow> 0 | Some r \<Rightarrow> get_reg r s * of_nat scale)
             + of_nat disp) s)"
| "exec c None (Jecxz l # is) s =
     (if xcx s = 0 then exec c (Some l) is s else exec c None is s)"
| "exec c None (Jmp l # is) s = exec c (Some l) is s"
| "exec c None (Label l # is) s = exec c None is s"
| "exec c None (Mov_imm_label r l # is) s = exec c None is (set_reg r (label_pc l) s)"
| "exec c None (Jmp_code_cache # is) s =
     (case exec_code_cache c code_cache s of
        None \<Rightarrow> None | Some (l, s') \<Rightarrow> exec c (Some l) is s')"
| "exec c None (Clean_call # is) s =
     (case clean_call c s of None \<Rightarrow> None | Some s' \<Rightarrow> exec c None is s')"
| "exec c None (Jmp_ind r # is) s =
     (case label_at (get_reg r s) of None \<Rightarrow> None | Some l \<Rightarrow> exec c (Some l) is s)"

text \<open>
  A thread executes application instructions one after the other; before each, the
  code inserted for it runs.  What the application instruction itself does to the
  application's state is not part of the model.
\<close>

definition run_instr :: "nat \<Rightarrow> instr_t \<Rightarrow> machine \<Rightarrow> machine option" where
  "run_instr c inst s = exec c None (event_bb_insert inst) s"

fun run :: "nat \<Rightarrow> instr_t list \<Rightarrow> machine \<Rightarrow> machine option" where
  "run c [] s = Some s"
| "run c (inst # insts) s =
     (case run_instr c inst s of None \<Rightarrow> None | Some s' \<Rightarrow> run c insts s')"

subsection \<open>A thread's life\<close>

text \<open>
  The machine of a thread that has just been initialised: \<open>b\<close> and \<open>cx\<close> are the
  application's values of the two registers, \<open>tls\<close> the address of the thread's data.
\<close>

definition thread_start :: "thread \<Rightarrow> ptr \<Rightarrow> ptr \<Rightarrow> ptr \<Rightarrow> machine" where
  "thread_start t b cx tls =
     \<lparr>buf_ptr = buf_ptr t, buf_base = buf_base t, buf_end = buf_end t, log = log t,
      num_refs = num_refs t, buf = buf t,
      xbx = b, xcx = cx, slot_2 = 0, slot_3 = 0, tls_field = tls\<rparr>"

text \<open>
  A thread: the address and junk content of its buffer, its registers and TLS field,
  and the instructions it executes.  Its life is \<open>event_thread_init\<close>, the execution of
  its instructions and \<open>event_thread_exit\<close>; the log file is new, empty and writable.
\<close>

record thread_spec =
  t_base :: ptr
  t_junk :: "nat \<Rightarrow> mem_ref_t"
  t_xbx :: ptr
  t_xcx :: ptr
  t_tls :: ptr
  t_code :: "instr_t list"

definition new_log :: file_t where
  "new_log = \<lparr>lines = [], writable = True\<rparr>"

definition thread_run :: "nat \<Rightarrow> thread_spec \<Rightarrow> machine option" where
  "thread_run c t =
     run c (t_code t)
       (thread_start (event_thread_init c (t_base t) (t_junk t) new_log)
          (t_xbx t) (t_xcx t) (t_tls t))"

definition thread_life :: "nat \<Rightarrow> globals \<Rightarrow> thread_spec \<Rightarrow> (globals \<times> machine) option" where
  "thread_life c g t =
     (case thread_run c t of None \<Rightarrow> None | Some s \<Rightarrow> event_thread_exit c g s)"

subsection \<open>What is observed\<close>

text \<open>
  The reference lines of a log, and the number of dumps written to it (each call of
  \<open>memtrace\<close> starts with one header line).
\<close>

definition ref_lines :: "file_t \<Rightarrow> log_line list" where
  "ref_lines f = filter (\<lambda>l. l \<noteq> Format_line) (lines f)"

definition flushes :: "file_t \<Rightarrow> nat" where
  "flushes f = length (filter (\<lambda>l. l = Format_line) (lines f))"

text \<open>
  The number of records between \<open>buf_base\<close> and \<open>buf_ptr\<close>, the records themselves, and
  everything the thread has recorded so far: the lines in its log followed by the
  lines of the records still in the buffer.
\<close>

definition filled :: "'a thread_scheme \<Rightarrow> nat" where
  "filled s = unat (buf_ptr s - buf_base s) div sizeof_mem_ref_t"

definition pending :: "'a thread_scheme \<Rightarrow> mem_ref_t list" where
  "pending s = take (filled s) (buf s)"

definition recorded :: "'a thread_scheme \<Rightarrow> log_line list" where
  "recorded s = ref_lines (log s) @ map ref_line (pending s)"

text \<open>
  The memory reference an instruction makes through one of its operands, the
  references through its memory operands (sources first, then destinations), and
  the references that the client instruments: none for an instruction without
  application address, the sources' only if the instruction reads memory, the
  destinations' only if it writes memory.
\<close>

definition mem_ref_of :: "instr_t \<Rightarrow> bool \<Rightarrow> opnd_t \<Rightarrow> mem_ref_t" where
  "mem_ref_of inst w ref =
     \<lparr>write_m = w, addr = mem_addr ref, size_m = mem_size_in_bytes ref, pc = app_pc inst\<rparr>"

definition mem_refs :: "instr_t \<Rightarrow> mem_ref_t list" where
  "mem_refs inst =
     map (mem_ref_of inst False) (filter is_memory_reference (srcs inst)) @
     map (mem_ref_of inst True) (filter is_memory_reference (dsts inst))"

definition traced_refs :: "instr_t \<Rightarrow> mem_ref_t list" where
  "traced_refs inst =
     (if app_pc inst = 0 then []
      else (if reads_memory inst
            then map (mem_ref_of inst False) (filter is_memory_reference (srcs inst)) else []) @
           (if writes_memory inst
            then map (mem_ref_of inst True) (filter is_memory_reference (dsts inst)) else []))"

text \<open>
  The state of a thread's buffer is in order when the block holds \<open>c\<close> records,
  \<open>buf_end\<close> is the negated end address, and \<open>buf_ptr\<close> points to the start of a record
  of the block or to its end; the count must fit the \<open>int\<close> of \<open>memtrace\<close>.  Between two
  fast paths the buffer is never full.
\<close>

definition buffer_ok :: "nat \<Rightarrow> 'a thread_scheme \<Rightarrow> bool" where
  "buffer_ok c s \<longleftrightarrow>
     0 < c \<and> c < 2 ^ 31 \<and> length (buf s) = c \<and>
     buf_end s = - (buf_base s + of_nat (MEM_BUF_SIZE c)) \<and>
     buf_ptr s = buf_base s + of_nat (sizeof_mem_ref_t * filled s) \<and>
     filled s \<le> c"

definition running :: "nat \<Rightarrow> 'a thread_scheme \<Rightarrow> bool" where
  "running c s \<longleftrightarrow> buffer_ok c s \<and> filled s < c"

text \<open>
  \<open>grows c s rs s'\<close>: from \<open>s\<close> the thread has reached \<open>s'\<close> by recording the references
  \<open>rs\<close>.  The buffer is in order and not full, its place and the stolen registers are
  as before, the buffer was dumped each time it became full and the counter grew by
  \<open>c\<close> with each dump; if the log can be written, the recorded lines grew by the lines
  of \<open>rs\<close> and each dump wrote a header, and otherwise the log is as it was.
\<close>

definition grows :: "nat \<Rightarrow> machine \<Rightarrow> mem_ref_t list \<Rightarrow> machine \<Rightarrow> bool" where
  "grows c s rs s' \<longleftrightarrow>
     running c s' \<and>
     buf_base s' = buf_base s \<and> buf_end s' = buf_end s \<and> tls_field s' = tls_field s \<and>
     xbx s' = xbx s \<and> xcx s' = xcx s \<and>
     writable (log s') = writable (log s) \<and>
     filled s' = (filled s + length rs) mod c \<and>
     num_refs s' = num_refs s + of_nat (c * ((filled s + length rs) div c)) \<and>
     (if writable (log s)
      then recorded s' = recorded s @ map ref_line rs \<and>
           flushes (log s') = flushes (log s) + (filled s + length rs) div c
      else log s' = log s)"

text \<open>
  The stores of the inserted code into a \<open>mem_ref_t\<close>.
\<close>

definition is_ref_store :: "meta_instr \<Rightarrow> bool" where
  "is_ref_store i =
     (case i of Mov_imm_ref base d v \<Rightarrow> True | Mov_st_ref base d src \<Rightarrow> True | _ \<Rightarrow> False)"

text \<open>
  The number of dumps of a thread that makes \<open>n\<close> references with a buffer of \<open>c\<close>
  records, in the words of the specification: \<open>floor(n/c)\<close> and one more if
  \<open>n mod c > 0\<close>.
\<close>

definition claimed_flushes :: "nat \<Rightarrow> nat \<Rightarrow> nat" where
  "claimed_flushes n c = n div c + (if 0 < n mod c then 1 else 0)"

subsection \<open>Concrete threads\<close>

text \<open>
  Instructions that read four bytes, write four bytes, read and write the same four
  bytes, and one with two memory sources, a register source and a memory
  destination; the thread of the scenario with five accesses (read, write, read,
  read, write) and one with two accesses; a thread that has just started, with a
  buffer of \<open>c\<close> records; a thread with one record in a buffer of two; the same thread
  with a log that cannot be written; and the global state at the start.
\<close>

definition load_instr :: "ptr \<Rightarrow> ptr \<Rightarrow> instr_t" where
  "load_instr p a =
     \<lparr>app_pc = p, reads_memory = True, writes_memory = False,
      srcs = [\<lparr>is_memory_reference = True, mem_addr = a, mem_size_in_bytes = 4\<rparr>],
      dsts = []\<rparr>"

definition store_instr :: "ptr \<Rightarrow> ptr \<Rightarrow> instr_t" where
  "store_instr p a =
     \<lparr>app_pc = p, reads_memory = False, writes_memory = True,
      srcs = [],
      dsts = [\<lparr>is_memory_reference = True, mem_addr = a, mem_size_in_bytes = 4\<rparr>]\<rparr>"

definition scenario :: thread_spec where
  "scenario =
     \<lparr>t_base = 4096, t_junk = (\<lambda>_. zero_mem_ref), t_xbx = 7, t_xcx = 9, t_tls = 512,
      t_code = [load_instr 100 1000, store_instr 104 1008, load_instr 108 1016,
                load_instr 112 1024, store_instr 116 1032]\<rparr>"

definition fresh :: "nat \<Rightarrow> machine" where
  "fresh c = thread_start (event_thread_init c 4096 (\<lambda>_. zero_mem_ref) new_log) 7 9 512"

definition update_instr :: "ptr \<Rightarrow> ptr \<Rightarrow> instr_t" where
  "update_instr p a =
     \<lparr>app_pc = p, reads_memory = True, writes_memory = True,
      srcs = [\<lparr>is_memory_reference = True, mem_addr = a, mem_size_in_bytes = 4\<rparr>],
      dsts = [\<lparr>is_memory_reference = True, mem_addr = a, mem_size_in_bytes = 4\<rparr>]\<rparr>"

definition two_accesses :: thread_spec where
  "two_accesses =
     \<lparr>t_base = 4096, t_junk = (\<lambda>_. zero_mem_ref), t_xbx = 7, t_xcx = 9, t_tls = 512,
      t_code = [load_instr 100 1000, store_instr 104 1008]\<rparr>"

definition no_refs :: globals where
  "no_refs = \<lparr>mutex_held = False, num_refs_g = 0\<rparr>"

definition half_full :: machine where
  "half_full =
     \<lparr>buf_ptr = 4128, buf_base = 4096, buf_end = - (4096 + 64), log = new_log, num_refs = 0,
      buf = [\<lparr>write_m = False, addr = 1000, size_m = 4, pc = 100\<rparr>, zero_mem_ref],
      xbx = 7, xcx = 9, slot_2 = 7, slot_3 = 9, tls_field = 512\<rparr>"

definition three_operands :: instr_t where
  "three_operands =
     \<lparr>app_pc = 200, reads_memory = True, writes_memory = True,
      srcs = [\<lparr>is_memory_reference = True, mem_addr = 1000, mem_size_in_bytes = 4\<rparr>,
              \<lparr>is_memory_reference = False, mem_addr = 0, mem_size_in_bytes = 0\<rparr>,
              \<lparr>is_memory_reference = True, mem_addr = 2000, mem_size_in_bytes = 8\<rparr>],
      dsts = [\<lparr>is_memory_reference = True, mem_addr = 3000, mem_size_in_bytes = 2\<rparr>]\<rparr>"

definition unwritable :: "machine \<Rightarrow> machine" where
  "unwritable s = s\<lparr>log := (log s)\<lparr>writable := False\<rparr>\<rparr>"

subsection \<open>Concurrent thread exits\<close>

text \<open>
  Modelled from the spec: the threads of the application run concurrently, and a
  thread that finds the framework's mutex held waits for it.  To see what the mutex
  protects, \<open>event_thread_exit\<close> is cut into its statements: the call of \<open>memtrace\<close>,
  \<open>dr_mutex_lock\<close>, the statement \<open>num_refs += data->num_refs\<close> as the load of the
  global counter followed by the store of the sum (the addition on the static is not
  atomic), and \<open>dr_mutex_unlock\<close>.  \<open>e_pc\<close> is the statement the thread is about to
  execute, \<open>e_data\<close> its private data and \<open>e_tmp\<close> the value of the global counter it has
  loaded.
\<close>

datatype exit_pc = At_memtrace | At_lock | At_load | At_store | At_unlock | Exited

record exiting =
  e_pc :: exit_pc
  e_data :: machine
  e_tmp :: "64 word"

text \<open>
  One statement of one thread.  A thread at \<open>dr_mutex_lock\<close> that finds the mutex held
  cannot take its step (\<open>None\<close>), and a thread that has exited has no step left.
\<close>

definition exit_step :: "nat \<Rightarrow> globals \<Rightarrow> exiting \<Rightarrow> (globals \<times> exiting) option" where
  "exit_step c g t =
     (case e_pc t of
        At_memtrace \<Rightarrow>
          (case memtrace c (e_data t) of
             None \<Rightarrow> None
           | Some data \<Rightarrow> Some (g, t\<lparr>e_data := data, e_pc := At_lock\<rparr>))
      | At_lock \<Rightarrow>
          (case dr_mutex_lock g of
             None \<Rightarrow> None
           | Some g' \<Rightarrow> Some (g', t\<lparr>e_pc := At_load\<rparr>))
      | At_load \<Rightarrow> Some (g, t\<lparr>e_tmp := num_refs_g g, e_pc := At_store\<rparr>)
      | At_store \<Rightarrow>
          Some (g\<lparr>num_refs_g := e_tmp t + num_refs (e_data t)\<rparr>, t\<lparr>e_pc := At_unlock\<rparr>)
      | At_unlock \<Rightarrow> Some (dr_mutex_unlock g, t\<lparr>e_pc := Exited\<rparr>)
      | Exited \<Rightarrow> None)"

text \<open>
  Modelled from the spec: a schedule is the list of the indices of the threads in the
  order in which they are given a step.  A thread that cannot take its step leaves
  the configuration as it is, and so does an index that names no thread.  Every
  interleaving of the statements of the exiting threads is the run of a schedule.
\<close>

fun teardown :: "nat \<Rightarrow> nat list \<Rightarrow> globals \<times> exiting list \<Rightarrow> globals \<times> exiting list" where
  "teardown c [] (g, ts) = (g, ts)"
| "teardown c (i # sched) (g, ts) =
     teardown c sched
       (if i < length ts
        then (case exit_step c g (ts ! i) of
                None \<Rightarrow> (g, ts)
              | Some (g', t') \<Rightarrow> (g', ts[i := t']))
        else (g, ts))"

text \<open>
  A thread is in the critical section from the return of \<open>dr_mutex_lock\<close> to the
  return of \<open>dr_mutex_unlock\<close>: it is about to load the global counter, to store the
  sum, or to unlock.  It has added its counter once its store has happened.
\<close>

definition in_critical_section :: "exiting \<Rightarrow> bool" where
  "in_critical_section t \<longleftrightarrow> e_pc t = At_load \<or> e_pc t = At_store \<or> e_pc t = At_unlock"

definition has_added :: "exiting \<Rightarrow> bool" where
  "has_added t \<longleftrightarrow> e_pc t = At_unlock \<or> e_pc t = Exited"

text \<open>
  What every step of every thread preserves, from the configuration \<open>(g0, ts0)\<close> in
  which no thread has begun its exit: the threads in the critical section are one if
  the mutex is held and none otherwise; the global counter has grown by the counters
  of the threads that have added theirs; the value a thread is about to store was
  loaded from the counter as it is now; and the data of a thread past the call of
  \<open>memtrace\<close> is the dump of the data it began with.
\<close>

definition teardown_inv ::
    "nat \<Rightarrow> globals \<Rightarrow> exiting list \<Rightarrow> globals \<times> exiting list \<Rightarrow> bool" where
  "teardown_inv c g0 ts0 cfg \<longleftrightarrow>
     (case cfg of (g, ts) \<Rightarrow>
        length (filter in_critical_section ts) = (if mutex_held g then 1 else 0) \<and>
        num_refs_g g =
          num_refs_g g0 + sum_list (map (\<lambda>t. if has_added t then num_refs (e_data t) else 0) ts) \<and>
        list_all (\<lambda>t. if e_pc t = At_store then e_tmp t = num_refs_g g else True) ts \<and>
        list_all2 (\<lambda>t0 t. buffer_ok c (e_data t0) \<and>
                     (if e_pc t = At_memtrace then e_data t = e_data t0
                      else memtrace c (e_data t0) = Some (e_data t))) ts0 ts)"

section \<open>Properties\<close>

subsection \<open>Pointer arithmetic, dumps and the fast path\<close>

lemma unat_cursor:
  assumes "buffer_ok c s"
  shows "unat (buf_ptr s - buf_base s) = sizeof_mem_ref_t * filled s"
proof -
  let ?d = "unat (buf_ptr s - buf_base s)"
  have le: "sizeof_mem_ref_t * filled s \<le> ?d"
    by (simp add: filled_def)
  have lt: "?d < 2 ^ 64"
    using unsigned_less [of "buf_ptr s - buf_base s", where 'a = nat] by simp
  have "word_of_nat (sizeof_mem_ref_t * filled s) = buf_ptr s - buf_base s"
    using assms by (simp add: buffer_ok_def)
  then show ?thesis
    using le lt by (intro of_nat_inverse) simp_all
qed

lemma pending_refs_filled:
  assumes "buffer_ok c s"
  shows "pending_refs s = int (filled s)"
proof -
  have n: "filled s < 2 ^ 31" using assms by (simp add: buffer_ok_def)
  have u: "uint (buf_ptr s - buf_base s) = 32 * int (filled s)"
    using unat_cursor [OF assms] by (simp add: sizeof_mem_ref_t_def flip: of_nat_unat [where 'a = int] )
  have "sint (buf_ptr s - buf_base s) = 32 * int (filled s)"
    unfolding sint_uint u using n by (intro signed_take_bit_int_eq_self) simp_all
  then have "sint (buf_ptr s - buf_base s) sdiv int sizeof_mem_ref_t = int (filled s)"
    by (auto simp add: sizeof_mem_ref_t_def signed_divide_int_def sgn_mult)
  moreover have "sint (word_of_int (int (filled s)) :: 32 word) = int (filled s)"
    unfolding signed_of_int using n by (simp add: signed_take_bit_int_eq_self)
  ultimately show ?thesis by (simp add: pending_refs_def)
qed

lemma slot_of_cursor:
  assumes "running c s"
  shows "slot_of s (buf_ptr s) = Some (filled s)"
proof -
  have ok: "buffer_ok c s" and lt: "filled s < c" using assms by (simp_all add: running_def)
  have len: "length (buf s) = c" using ok by (simp add: buffer_ok_def)
  have u: "unat (buf_ptr s - buf_base s) = 32 * filled s"
    using unat_cursor [OF ok] by (simp add: sizeof_mem_ref_t_def)
  show ?thesis
    unfolding slot_of_def Let_def u using lt len by (simp add: sizeof_mem_ref_t_def)
qed


lemma slot_of_upd [simp]:
  "slot_of (s\<lparr>xbx := a\<rparr>) = slot_of s"
  "slot_of (s\<lparr>xcx := a\<rparr>) = slot_of s"
  "slot_of (s\<lparr>slot_2 := a\<rparr>) = slot_of s"
  "slot_of (s\<lparr>slot_3 := a\<rparr>) = slot_of s"
  "slot_of (s\<lparr>buf_ptr := a\<rparr>) = slot_of s"
  "length b = length (buf s) \<Longrightarrow> slot_of (s\<lparr>buf := b\<rparr>) = slot_of s"
  by (simp_all add: slot_of_def fun_eq_iff)

lemma mem_ref_all_updates:
  "r\<lparr>write_m := a, addr := b, size_m := d, pc := e\<rparr> = \<lparr>write_m = a, addr = b, size_m = d, pc = e\<rparr>"
  by (cases r) simp

lemma full_test:
  assumes "running c s"
  shows "buf_end s + (buf_ptr s + of_nat sizeof_mem_ref_t) = 0 \<longleftrightarrow> Suc (filled s) = c"
proof -
  have ok: "buffer_ok c s" and lt: "filled s < c" using assms by (simp_all add: running_def)
  have c: "c < 2 ^ 31" using ok by (simp add: buffer_ok_def)
  have e: "buf_end s = - (buf_base s + of_nat (MEM_BUF_SIZE c))"
    and p: "buf_ptr s = buf_base s + of_nat (sizeof_mem_ref_t * filled s)"
    using ok by (simp_all add: buffer_ok_def)
  have "buf_end s + (buf_ptr s + of_nat sizeof_mem_ref_t)
      = (of_nat (32 * Suc (filled s)) :: 64 word) - of_nat (32 * c)"
    by (subst e, subst p) (simp add: MEM_BUF_SIZE_def sizeof_mem_ref_t_def algebra_simps)
  moreover have "(of_nat (32 * Suc (filled s)) :: 64 word) = of_nat (32 * c) \<longleftrightarrow> 32 * Suc (filled s) = 32 * c"
    using lt c by (intro word_of_nat_eq_iff [THEN trans] ) (simp add: take_bit_nat_eq_self)
  ultimately show ?thesis by auto
qed

lemma filled_less_length:
  "running c s \<Longrightarrow> filled s < length (buf s)"
  by (simp add: running_def buffer_ok_def)

lemma exec_fast_path:
  assumes "running c s"
  shows "exec c None (instrument_mem inst pos w) s =
  (let r = mem_ref_of inst w (if w then dsts inst ! pos else srcs inst ! pos);
       s1 = s\<lparr>buf := (buf s)[filled s := r], buf_ptr := buf_ptr s + of_nat sizeof_mem_ref_t,
              slot_2 := xbx s, slot_3 := xcx s\<rparr>
   in if Suc (filled s) = c then memtrace c s1 else Some s1)"
  using slot_of_cursor [OF assms] full_test [OF assms] filled_less_length [OF assms]
  apply (simp add: instrument_mem_def store_ref_def mem_ref_member_at_def per_thread_member_at_def Let_def
       mem_ref_all_updates mem_ref_of_def code_cache_def label_at_def clean_call_def memtrace_def
       pending_refs_def)
  done

lemma dump_refs_writable:
  "writable f \<Longrightarrow> dump_refs rs f = f\<lparr>lines := lines f @ map ref_line rs\<rparr>"
  by (induction rs arbitrary: f) (simp_all add: dr_fprintf_def)

lemma dump_refs_unwritable:
  "\<not> writable f \<Longrightarrow> dump_refs rs f = f"
  by (induction rs arbitrary: f) (simp_all add: dr_fprintf_def)

lemma memtrace_ok:
  assumes "buffer_ok c s"
  shows "memtrace c s =
     Some (s\<lparr>log := dump_refs (pending s) (dr_fprintf (log s) Format_line),
             buf := replicate c zero_mem_ref,
             num_refs := num_refs s + of_nat (filled s),
             buf_ptr := buf_base s\<rparr>)"
  using assms pending_refs_filled [OF assms]
  by (simp add: memtrace_def buffer_ok_def pending_def)

lemma filled_advance:
  assumes "running c s" "buf_ptr t = buf_ptr s + of_nat sizeof_mem_ref_t" "buf_base t = buf_base s"
  shows "filled t = Suc (filled s)"
proof -
  have ok: "buffer_ok c s" and lt: "filled s < c" using assms by (simp_all add: running_def)
  have c: "c < 2 ^ 31" using ok by (simp add: buffer_ok_def)
  have p: "buf_ptr s = buf_base s + of_nat (sizeof_mem_ref_t * filled s)"
    using ok by (simp add: buffer_ok_def)
  have "buf_ptr t - buf_base t = of_nat (32 * Suc (filled s))"
    unfolding assms(2,3) by (subst p) (simp add: sizeof_mem_ref_t_def)
  moreover have "unat (of_nat (32 * Suc (filled s)) :: 64 word) = 32 * Suc (filled s)"
    using lt c by (intro of_nat_inverse [OF refl]) simp
  ultimately show ?thesis by (simp add: filled_def sizeof_mem_ref_t_def)
qed

lemma buffer_ok_advance:
  assumes "running c s" "buf_ptr t = buf_ptr s + of_nat sizeof_mem_ref_t" "buf_base t = buf_base s"
    "buf_end t = buf_end s" "length (buf t) = length (buf s)"
  shows "buffer_ok c t"
proof -
  have ok: "buffer_ok c s" and lt: "filled s < c" using assms by (simp_all add: running_def)
  have f: "filled t = Suc (filled s)" using assms(1-3) by (rule filled_advance)
  have p: "buf_ptr s = buf_base s + of_nat (sizeof_mem_ref_t * filled s)"
    using ok by (simp add: buffer_ok_def)
  have "buf_ptr t = buf_base t + of_nat (sizeof_mem_ref_t * filled t)"
    unfolding f assms(2,3) by (subst p) (simp add: algebra_simps)
  then show ?thesis
    using ok lt f assms(3,4,5) unfolding buffer_ok_def by simp
qed

lemma buffer_ok_reset:
  assumes "buffer_ok c s" "buf_ptr t = buf_base s" "buf_base t = buf_base s"
    "buf_end t = buf_end s" "length (buf t) = c"
  shows "running c t"
  using assms by (simp add: running_def buffer_ok_def filled_def)


lemma ref_line_neq [simp]:
  "ref_line r \<noteq> Format_line"
  by (simp add: ref_line_def)

lemma ref_lines_map [simp]:
  "filter (\<lambda>l. l \<noteq> Format_line) (map ref_line rs) = map ref_line rs"
  "filter (\<lambda>l. l = Format_line) (map ref_line rs) = []"
  by (induction rs) simp_all

lemma grows_refl:
  "running c s \<Longrightarrow> grows c s [] s"
  by (simp add: grows_def running_def)

lemma div_mod_step:
  fixes a k k' c :: nat
  shows "(a + k) div c + ((a + k) mod c + k') div c = (a + k + k') div c"
proof (cases "c = 0")
  case True
  then show ?thesis by simp
next
  case False
  define q r where "q = (a + k) div c" and "r = (a + k) mod c"
  have "a + k = r + q * c" by (simp add: q_def r_def)
  then have "(a + k + k') div c = (r + k' + q * c) div c" by (simp add: ac_simps)
  also have "\<dots> = q + (r + k') div c" using False by (rule div_mult_self1)
  finally show ?thesis by (simp add: q_def r_def)
qed

lemma grows_trans:
  assumes "grows c s rs s'" "grows c s' rs' s''"
  shows "grows c s (rs @ rs') s''"
proof -
  let ?a = "filled s" and ?k = "length rs" and ?k' = "length rs'"
  have f': "filled s' = (?a + ?k) mod c" using assms(1) unfolding grows_def by blast
  have l: "?a + length (rs @ rs') = ?a + ?k + ?k'" by simp
  have m: "((?a + ?k) mod c + ?k') mod c = (?a + ?k + ?k') mod c"
    by (simp add: mod_add_left_eq)
  have d: "(?a + ?k) div c + ((?a + ?k) mod c + ?k') div c = (?a + ?k + ?k') div c"
    by (rule div_mod_step)
  have "num_refs s'' = num_refs s' + of_nat (c * (((?a + ?k) mod c + ?k') div c))"
    using assms(2) unfolding grows_def f' by blast
  moreover have "num_refs s' = num_refs s + of_nat (c * ((?a + ?k) div c))"
    using assms(1) unfolding grows_def by blast
  ultimately have "num_refs s'' =
      num_refs s + of_nat (c * ((?a + ?k) div c + ((?a + ?k) mod c + ?k') div c))"
    by (simp add: distrib_left)
  then have n: "num_refs s'' = num_refs s + of_nat (c * ((?a + length (rs @ rs')) div c))"
    by (simp only: d l)
  have "filled s'' = ((?a + ?k) mod c + ?k') mod c"
    using assms(2) unfolding grows_def f' by blast
  then have fl: "filled s'' = (?a + length (rs @ rs')) mod c"
    by (simp only: m l)
  have frame: "running c s''" "buf_base s'' = buf_base s" "buf_end s'' = buf_end s"
    "tls_field s'' = tls_field s" "xbx s'' = xbx s" "xcx s'' = xcx s"
    "writable (log s'') = writable (log s)"
    using assms unfolding grows_def by simp_all
  have rest: "if writable (log s)
      then recorded s'' = recorded s @ map ref_line (rs @ rs') \<and>
           flushes (log s'') = flushes (log s) + (?a + length (rs @ rs')) div c
      else log s'' = log s"
  proof (cases "writable (log s)")
    case True
    then have w': "writable (log s')" using assms(1) by (simp add: grows_def)
    have "recorded s' = recorded s @ map ref_line rs"
      and "flushes (log s') = flushes (log s) + (?a + ?k) div c"
      using assms(1) True by (simp_all add: grows_def)
    moreover have "recorded s'' = recorded s' @ map ref_line rs'"
      and "flushes (log s'') = flushes (log s') + ((?a + ?k) mod c + ?k') div c"
      using assms(2) w' unfolding grows_def f' by simp_all
    ultimately have "recorded s'' = recorded s @ map ref_line (rs @ rs')"
      and "flushes (log s'') = flushes (log s) + (?a + ?k + ?k') div c"
      using d by simp_all
    then show ?thesis using True by (simp only: l if_True simp_thms)
  next
    case False
    then have w': "\<not> writable (log s')" using assms(1) by (simp add: grows_def)
    show ?thesis using assms False w' by (simp add: grows_def)
  qed
  show ?thesis
    unfolding grows_def using frame n fl rest by blast
qed


lemma writable_dump:
  "writable (dump_refs rs (dr_fprintf f l)) = writable f"
  by (cases "writable f") (simp_all add: dump_refs_writable dump_refs_unwritable dr_fprintf_def)

lemma lines_dump:
  "writable f \<Longrightarrow>
   lines (dump_refs rs (dr_fprintf f Format_line)) = lines f @ Format_line # map ref_line rs"
  by (simp add: dump_refs_writable dr_fprintf_def)

lemma fast_path_grows:
  assumes run: "running c s"
  shows "\<exists>s'. exec c None (instrument_mem inst pos w) s = Some s' \<and>
     grows c s [mem_ref_of inst w (if w then dsts inst ! pos else srcs inst ! pos)] s'"
proof -
  define r where "r = mem_ref_of inst w (if w then dsts inst ! pos else srcs inst ! pos)"
  define s1 where "s1 = s\<lparr>buf := (buf s)[filled s := r],
      buf_ptr := buf_ptr s + of_nat sizeof_mem_ref_t, slot_2 := xbx s, slot_3 := xcx s\<rparr>"
  have ex: "exec c None (instrument_mem inst pos w) s =
      (if Suc (filled s) = c then memtrace c s1 else Some s1)"
    using exec_fast_path [OF run, of inst pos w] by (simp add: r_def s1_def Let_def)
  have ok: "buffer_ok c s" and lt: "filled s < c" using run by (simp_all add: running_def)
  have len: "length (buf s) = c" and c0: "0 < c" using ok by (simp_all add: buffer_ok_def)
  have s1: "buf_ptr s1 = buf_ptr s + of_nat sizeof_mem_ref_t" "buf_base s1 = buf_base s"
    "buf_end s1 = buf_end s" "length (buf s1) = length (buf s)" "log s1 = log s"
    "num_refs s1 = num_refs s" "xbx s1 = xbx s" "xcx s1 = xcx s" "tls_field s1 = tls_field s"
    "buf s1 = (buf s)[filled s := r]"
    by (simp_all add: s1_def)
  have f1: "filled s1 = Suc (filled s)" using run s1(1,2) by (rule filled_advance)
  have ok1: "buffer_ok c s1" using run s1(1-4) by (rule buffer_ok_advance)
  have p1: "pending s1 = pending s @ [r]"
    using lt len by (simp add: pending_def f1 s1(10) take_Suc_conv_app_nth)
  show ?thesis
  proof (cases "Suc (filled s) = c")
    case False
    then have lt1: "Suc (filled s) < c" using lt by simp
    have "grows c s [r] s1"
      unfolding grows_def using ok1 lt1 f1 s1 p1 by (simp add: running_def recorded_def)
    then show ?thesis using ex False by (simp add: r_def)
  next
    case True
    define s2 where "s2 = s1\<lparr>log := dump_refs (pending s1) (dr_fprintf (log s1) Format_line),
             buf := replicate c zero_mem_ref,
             num_refs := num_refs s1 + of_nat (filled s1),
             buf_ptr := buf_base s1\<rparr>"
    have m: "memtrace c s1 = Some s2" using memtrace_ok [OF ok1] by (simp add: s2_def)
    have s2: "buf_ptr s2 = buf_base s1" "buf_base s2 = buf_base s1" "buf_end s2 = buf_end s1"
      "length (buf s2) = c" "xbx s2 = xbx s" "xcx s2 = xcx s" "tls_field s2 = tls_field s"
      "num_refs s2 = num_refs s + of_nat c"
      "log s2 = dump_refs (pending s @ [r]) (dr_fprintf (log s) Format_line)"
      by (simp_all add: s2_def s1 f1 True p1)
    have run2: "running c s2" using ok1 s2(1-4) by (rule buffer_ok_reset)
    have f2: "filled s2 = 0" using s2(1,2) by (simp add: filled_def)
    have w2: "writable (log s2) = writable (log s)" by (simp add: s2(9) writable_dump)
    have rest: "if writable (log s)
        then recorded s2 = recorded s @ map ref_line [r] \<and>
             flushes (log s2) = flushes (log s) + (filled s + length [r]) div c
        else log s2 = log s"
    proof (cases "writable (log s)")
      case w: True
      have "lines (log s2) = lines (log s) @ Format_line # map ref_line (pending s @ [r])"
        using w by (simp only: s2(9) lines_dump)
      then show ?thesis
        using w True by (simp add: recorded_def ref_lines_def flushes_def pending_def f2)
    next
      case w: False
      then show ?thesis by (simp add: s2(9) dump_refs_unwritable dr_fprintf_def)
    qed
    have "grows c s [r] s2"
      unfolding grows_def using run2 s2(2,3,5-8) s1(2,3) w2 rest f2 True by simp
    then show ?thesis using ex True m by (simp add: r_def)
  qed
qed

lemma exec_append:
  "exec c j xs s = Some s' \<Longrightarrow> exec c j (xs @ ys) s = exec c None ys s'"
  by (induction c j xs s rule: exec.induct) (auto split: option.splits if_splits)


lemma grows_running:
  "grows c s rs s' \<Longrightarrow> running c s'"
  by (simp add: grows_def)

lemma exec_operands:
  assumes "running c s"
  shows "\<exists>s'. exec c None
            (concat (map (\<lambda>i. if is_memory_reference (ops i) then instrument_mem inst i w else []) js)) s
          = Some s' \<and>
        grows c s
          (map (\<lambda>i. mem_ref_of inst w (if w then dsts inst ! i else srcs inst ! i))
             (filter (\<lambda>i. is_memory_reference (ops i)) js)) s'"
  using assms
proof (induction js arbitrary: s)
  case Nil
  then show ?case by (simp add: grows_refl)
next
  case (Cons j js)
  show ?case
  proof (cases "is_memory_reference (ops j)")
    case False
    then show ?thesis using Cons.IH [OF Cons.prems] by simp
  next
    case True
    obtain s1 where e1: "exec c None (instrument_mem inst j w) s = Some s1"
      and g1: "grows c s [mem_ref_of inst w (if w then dsts inst ! j else srcs inst ! j)] s1"
      using fast_path_grows [OF Cons.prems] by blast
    obtain s2 where e2: "exec c None
            (concat (map (\<lambda>i. if is_memory_reference (ops i) then instrument_mem inst i w else []) js)) s1
          = Some s2"
      and g2: "grows c s1
          (map (\<lambda>i. mem_ref_of inst w (if w then dsts inst ! i else srcs inst ! i))
             (filter (\<lambda>i. is_memory_reference (ops i)) js)) s2"
      using Cons.IH [OF grows_running [OF g1]] by blast
    have "grows c s
          ([mem_ref_of inst w (if w then dsts inst ! j else srcs inst ! j)] @
           map (\<lambda>i. mem_ref_of inst w (if w then dsts inst ! i else srcs inst ! i))
             (filter (\<lambda>i. is_memory_reference (ops i)) js)) s2"
      using g1 g2 by (rule grows_trans)
    then show ?thesis
      using True e2 exec_append [OF e1] by simp
  qed
qed

lemma operand_refs:
  "map (\<lambda>i. f (xs ! i)) (filter (\<lambda>i. P (xs ! i)) [0..<length xs]) = map f (filter P xs)"
proof -
  have "map f (filter P (map (\<lambda>i. xs ! i) [0..<length xs])) = map f (filter P xs)"
    by (simp only: map_nth)
  then show ?thesis by (simp add: filter_map comp_def)
qed

lemma run_instr_grows:
  assumes "running c s"
  shows "\<exists>s'. run_instr c inst s = Some s' \<and> grows c s (traced_refs inst) s'"
proof (cases "app_pc inst = 0")
  case True
  then show ?thesis
    using assms by (simp add: run_instr_def event_bb_insert_def traced_refs_def grows_refl)
next
  case False
  define A where "A = (if reads_memory inst
         then concat (map (\<lambda>i. if is_memory_reference (srcs inst ! i)
                                then instrument_mem inst i False else [])
                          [0..<length (srcs inst)])
         else [])"
  define B where "B = (if writes_memory inst
         then concat (map (\<lambda>i. if is_memory_reference (dsts inst ! i)
                                then instrument_mem inst i True else [])
                          [0..<length (dsts inst)])
         else [])"
  define ra where "ra = (if reads_memory inst
            then map (mem_ref_of inst False) (filter is_memory_reference (srcs inst)) else [])"
  define rb where "rb = (if writes_memory inst
            then map (mem_ref_of inst True) (filter is_memory_reference (dsts inst)) else [])"
  have code: "event_bb_insert inst = A @ B"
    using False by (simp add: event_bb_insert_def A_def B_def)
  have refs: "traced_refs inst = ra @ rb"
    using False by (simp add: traced_refs_def ra_def rb_def)
  have "\<exists>s1. exec c None A s = Some s1 \<and> grows c s ra s1"
  proof (cases "reads_memory inst")
    case True
    show ?thesis
      using exec_operands [OF assms, of "\<lambda>i. srcs inst ! i" inst False "[0..<length (srcs inst)]"]
      by (simp add: A_def ra_def True operand_refs)
  next
    case False
    then show ?thesis using assms by (simp add: A_def ra_def grows_refl)
  qed
  then obtain s1 where e1: "exec c None A s = Some s1" and g1: "grows c s ra s1" by blast
  have r1: "running c s1" using g1 by (rule grows_running)
  have "\<exists>s2. exec c None B s1 = Some s2 \<and> grows c s1 rb s2"
  proof (cases "writes_memory inst")
    case True
    show ?thesis
      using exec_operands [OF r1, of "\<lambda>i. dsts inst ! i" inst True "[0..<length (dsts inst)]"]
      by (simp add: B_def rb_def True operand_refs)
  next
    case False
    then show ?thesis using r1 by (simp add: B_def rb_def grows_refl)
  qed
  then obtain s2 where e2: "exec c None B s1 = Some s2" and g2: "grows c s1 rb s2" by blast
  have "grows c s (ra @ rb) s2" using g1 g2 by (rule grows_trans)
  then show ?thesis
    using exec_append [OF e1, of B] e2 by (simp add: run_instr_def code refs)
qed

lemma run_grows:
  assumes "running c s"
  shows "\<exists>s'. run c insts s = Some s' \<and> grows c s (concat (map traced_refs insts)) s'"
  using assms
proof (induction insts arbitrary: s)
  case Nil
  then show ?case by (simp add: grows_refl)
next
  case (Cons inst insts)
  obtain s1 where e1: "run_instr c inst s = Some s1" and g1: "grows c s (traced_refs inst) s1"
    using run_instr_grows [OF Cons.prems] by blast
  obtain s2 where e2: "run c insts s1 = Some s2"
    and g2: "grows c s1 (concat (map traced_refs insts)) s2"
    using Cons.IH [OF grows_running [OF g1]] by blast
  have "grows c s (traced_refs inst @ concat (map traced_refs insts)) s2"
    using g1 g2 by (rule grows_trans)
  then show ?case using e1 e2 by simp
qed

lemma running_start:
  assumes "0 < c" "c < 2 ^ 31"
  shows "running c (thread_start (event_thread_init c base junk f) b cx tls)"
  using assms
  by (simp add: running_def buffer_ok_def thread_start_def event_thread_init_def filled_def)

lemma exec_stores:
  assumes "running c s"
  shows "exec c None (take 14 (instrument_mem inst pos w)) s =
     Some (s\<lparr>buf := (buf s)[filled s := mem_ref_of inst w (if w then dsts inst ! pos else srcs inst ! pos)],
             buf_ptr := buf_ptr s + of_nat sizeof_mem_ref_t,
             slot_2 := xbx s, slot_3 := xcx s,
             xbx := buf_end s,
             xcx := buf_end s + (buf_ptr s + of_nat sizeof_mem_ref_t)\<rparr>)"
  using slot_of_cursor [OF assms] filled_less_length [OF assms]
  by (simp add: instrument_mem_def store_ref_def mem_ref_member_at_def per_thread_member_at_def Let_def
       mem_ref_all_updates mem_ref_of_def)

lemma end_test:
  fixes p e b m :: ptr
  assumes "e = - (b + m)"
  shows "p + e = 0 \<longleftrightarrow> p = b + m"
proof -
  have "p + e = p - (b + m)" unfolding assms by (simp only: add_uminus_conv_diff)
  then show ?thesis by (simp only: right_minus_eq)
qed

lemma start_facts:
  "filled (thread_start (event_thread_init c base junk f) b cx tls) = 0"
  "log (thread_start (event_thread_init c base junk f) b cx tls) = f"
  "num_refs (thread_start (event_thread_init c base junk f) b cx tls) = 0"
  "recorded (thread_start (event_thread_init c base junk f) b cx tls) = ref_lines f"
  by (simp_all add: thread_start_def event_thread_init_def filled_def recorded_def pending_def)

lemma thread_run_grows:
  assumes "0 < c" "c < 2 ^ 31"
  shows "\<exists>s. thread_run c t = Some s \<and> running c s \<and> writable (log s) \<and>
     filled s = length (concat (map traced_refs (t_code t))) mod c \<and>
     num_refs s = of_nat (c * (length (concat (map traced_refs (t_code t))) div c)) \<and>
     recorded s = map ref_line (concat (map traced_refs (t_code t))) \<and>
     flushes (log s) = length (concat (map traced_refs (t_code t))) div c"
proof -
  let ?s0 = "thread_start (event_thread_init c (t_base t) (t_junk t) new_log)
          (t_xbx t) (t_xcx t) (t_tls t)"
  have "running c ?s0" using assms by (rule running_start)
  then obtain s where r: "run c (t_code t) ?s0 = Some s"
    and g: "grows c ?s0 (concat (map traced_refs (t_code t))) s"
    using run_grows by blast
  show ?thesis
    using r g unfolding grows_def start_facts
    by (simp add: thread_run_def new_log_def ref_lines_def flushes_def)
qed

lemma memtrace_writable:
  assumes "buffer_ok c s" "writable (log s)"
  shows "\<exists>s'. memtrace c s = Some s' \<and>
     lines (log s') = lines (log s) @ Format_line # map ref_line (pending s) \<and>
     writable (log s') \<and>
     num_refs s' = num_refs s + of_nat (filled s) \<and>
     buf_ptr s' = buf_base s' \<and> buf_base s' = buf_base s \<and> buf_end s' = buf_end s \<and>
     buf s' = replicate c zero_mem_ref"
  using assms(2) by (simp add: memtrace_ok [OF assms(1)] lines_dump writable_dump)

lemma length_pending:
  "buffer_ok c s \<Longrightarrow> length (pending s) = filled s"
  by (simp add: pending_def buffer_ok_def)

lemma exit_total:
  assumes "buffer_ok c s" "\<not> mutex_held g"
  shows "\<exists>s'. memtrace c s = Some s' \<and>
     event_thread_exit c g s = Some (g\<lparr>num_refs_g := num_refs_g g + num_refs s'\<rparr>, s')"
  using assms(2)
  by (simp add: event_thread_exit_def memtrace_ok [OF assms(1)] dr_mutex_lock_def dr_mutex_unlock_def)

lemma thread_life_steps:
  assumes "0 < c" "c < 2 ^ 31" "\<not> mutex_held g"
  shows "\<exists>s s'. thread_run c t = Some s \<and> running c s \<and>
     flushes (log s) = length (concat (map traced_refs (t_code t))) div c \<and>
     memtrace c s = Some s' \<and>
     event_thread_exit c g s =
        Some (g\<lparr>num_refs_g := num_refs_g g + of_nat (length (concat (map traced_refs (t_code t))))\<rparr>, s') \<and>
     ref_lines (log s') = map ref_line (concat (map traced_refs (t_code t))) \<and>
     flushes (log s') = length (concat (map traced_refs (t_code t))) div c + 1 \<and>
     num_refs s' = of_nat (length (concat (map traced_refs (t_code t))))"
proof -
  let ?n = "length (concat (map traced_refs (t_code t)))"
  obtain s where run: "thread_run c t = Some s" and r: "running c s" and w: "writable (log s)"
    and f: "filled s = ?n mod c" and n: "num_refs s = of_nat (c * (?n div c))"
    and rec: "recorded s = map ref_line (concat (map traced_refs (t_code t)))"
    and fl: "flushes (log s) = ?n div c"
    using thread_run_grows [OF assms(1,2)] by blast
  have ok: "buffer_ok c s" using r by (simp add: running_def)
  obtain s' where m: "memtrace c s = Some s'"
    and l: "lines (log s') = lines (log s) @ Format_line # map ref_line (pending s)"
    and n': "num_refs s' = num_refs s + of_nat (filled s)"
    using memtrace_writable [OF ok w] by blast
  have ex: "event_thread_exit c g s = Some (g\<lparr>num_refs_g := num_refs_g g + num_refs s'\<rparr>, s')"
    using exit_total [OF ok assms(3)] m by simp
  have "num_refs s' = of_nat (c * (?n div c)) + of_nat (?n mod c)"
    unfolding n' n f by (rule refl)
  also have "\<dots> = of_nat (c * (?n div c) + ?n mod c)"
    by (simp only: of_nat_add)
  finally have tot: "num_refs s' = of_nat ?n" by (simp only: mult_div_mod_eq)
  have "ref_lines (log s') = recorded s"
    by (simp add: ref_lines_def l recorded_def)
  moreover have "flushes (log s') = flushes (log s) + 1"
    by (simp add: flushes_def l)
  ultimately show ?thesis
    using run r m ex tot rec fl by simp
qed

lemma two_accesses_refs:
  "length (concat (map traced_refs (t_code two_accesses))) = 2"
  by (simp add: two_accesses_def traced_refs_def load_instr_def store_instr_def)

lemma pending_refs_empty:
  "buf_ptr s = buf_base s \<Longrightarrow> pending_refs s = 0"
  by (simp add: pending_refs_def)

lemma ref_lines_header:
  "ref_lines (dr_fprintf f Format_line) = ref_lines f"
  by (simp add: dr_fprintf_def ref_lines_def)

lemma fresh_facts:
  "buf_ptr (fresh c) = buf_base (fresh c)" "length (buf (fresh c)) = c" "log (fresh c) = new_log"
  by (simp_all add: fresh_def thread_start_def event_thread_init_def)

lemma inj_ref_line: "inj ref_line"
proof (rule injI)
  fix r r' :: mem_ref_t
  assume "ref_line r = ref_line r'"
  then show "r = r'"
    by (cases r; cases r') (simp add: ref_line_def split: if_splits)
qed

lemma half_full_ok: "buffer_ok 2 half_full" "writable (log half_full)" "filled half_full = 1"
  "num_refs half_full = 0"
  by (simp_all add: buffer_ok_def half_full_def filled_def sizeof_mem_ref_t_def MEM_BUF_SIZE_def new_log_def)

lemma filter_none:
  "\<not> (\<exists>x\<in>set xs. P x) \<Longrightarrow> filter P xs = []"
  by (induction xs) simp_all

lemma traced_refs_guards:
  assumes "app_pc inst \<noteq> 0"
    "(\<exists>ref\<in>set (srcs inst). is_memory_reference ref) \<longrightarrow> reads_memory inst"
    "(\<exists>ref\<in>set (dsts inst). is_memory_reference ref) \<longrightarrow> writes_memory inst"
  shows "traced_refs inst = mem_refs inst"
  using assms filter_none [of "srcs inst" is_memory_reference]
    filter_none [of "dsts inst" is_memory_reference]
  by (auto simp add: traced_refs_def mem_refs_def)

lemma run_instr_recorded:
  assumes "running c s" "writable (log s)"
  shows "\<exists>s'. run_instr c inst s = Some s' \<and> running c s' \<and> writable (log s') \<and>
     recorded s' = recorded s @ map ref_line (traced_refs inst)"
  using run_instr_grows [OF assms(1), of inst] assms(2) by (auto simp add: grows_def)

lemma filter_nth_pos:
  assumes "i < length xs" "P (xs ! i)"
  shows "length (filter P (take i xs)) < length (filter P xs)"
    and "filter P xs ! length (filter P (take i xs)) = xs ! i"
proof -
  have "xs = take i xs @ xs ! i # drop (Suc i) xs"
    using assms(1) by (rule id_take_nth_drop)
  then have "filter P xs = filter P (take i xs) @ xs ! i # filter P (drop (Suc i) xs)"
    using assms(2) by (metis filter.simps(2) filter_append)
  then show "length (filter P (take i xs)) < length (filter P xs)"
    and "filter P xs ! length (filter P (take i xs)) = xs ! i"
    by simp_all
qed

lemma exec_record_stored:
  assumes "running c s"
  shows "exec c None (take 12 (instrument_mem inst pos w)) s =
     Some (s\<lparr>buf := (buf s)[filled s := mem_ref_of inst w (if w then dsts inst ! pos else srcs inst ! pos)],
             buf_ptr := buf_ptr s + of_nat sizeof_mem_ref_t,
             slot_2 := xbx s, slot_3 := xcx s,
             xbx := tls_field s,
             xcx := buf_ptr s + of_nat sizeof_mem_ref_t\<rparr>)"
  using slot_of_cursor [OF assms] filled_less_length [OF assms]
  by (simp add: instrument_mem_def store_ref_def mem_ref_member_at_def per_thread_member_at_def Let_def
       mem_ref_all_updates mem_ref_of_def)

lemma memtrace_unwritable:
  assumes "buffer_ok c s" "\<not> writable (log s)"
  shows "memtrace c s =
     Some (s\<lparr>buf := replicate c zero_mem_ref,
             num_refs := num_refs s + of_nat (filled s),
             buf_ptr := buf_base s\<rparr>)"
  using assms(2) by (simp add: memtrace_ok [OF assms(1)] dump_refs_unwritable dr_fprintf_def)

lemma source_capacity:
  "0 < MAX_NUM_MEM_REFS \<and> MAX_NUM_MEM_REFS < 2 ^ 31"
  by (simp add: MAX_NUM_MEM_REFS_def)

subsection \<open>The end of the buffer and the diversion\<close>

lemma end_address:
  "of_nat (MEM_BUF_SIZE c) = (of_nat (c * sizeof_mem_ref_t) :: ptr)"
  by (simp add: MEM_BUF_SIZE_def mult.commute)

lemma exec_divert:
  "exec c None (drop 14 (instrument_mem inst pos w)) t =
     (if xcx t = 0
      then map_option (\<lambda>t'. t'\<lparr>xbx := slot_2 t', xcx := slot_3 t'\<rparr>)
             (clean_call c (t\<lparr>xcx := label_pc Restore_label\<rparr>))
      else Some (t\<lparr>xbx := slot_2 t, xcx := slot_3 t\<rparr>))"
  by (simp add: instrument_mem_def Let_def code_cache_def label_at_def clean_call_def memtrace_def)

lemma reached_end:
  assumes "running c s"
  shows "buf_ptr s + of_nat sizeof_mem_ref_t = buf_base s + of_nat (c * sizeof_mem_ref_t)
           \<longleftrightarrow> Suc (filled s) = c"
proof -
  have e: "buf_end s = - (buf_base s + of_nat (c * sizeof_mem_ref_t))"
    using assms by (simp only: running_def buffer_ok_def end_address)
  have "buf_ptr s + of_nat sizeof_mem_ref_t + buf_end s = 0 \<longleftrightarrow> Suc (filled s) = c"
    using full_test [OF assms] by (simp only: add.commute)
  then show ?thesis using end_test [OF e, of "buf_ptr s + of_nat sizeof_mem_ref_t"] by simp
qed

lemma fresh_filled: "filled (fresh c) = 0"
  by (simp add: filled_def fresh_facts)

subsection \<open>Concurrent exits keep the global counter exact\<close>

lemma sum_list_all_zero:
  fixes f :: "'a \<Rightarrow> 64 word"
  shows "\<forall>x\<in>set xs. f x = 0 \<Longrightarrow> sum_list (map f xs) = 0"
  by (induction xs) simp_all

lemma inv_start:
  assumes "\<not> mutex_held g" "list_all (\<lambda>t. e_pc t = At_memtrace \<and> buffer_ok c (e_data t)) ts"
  shows "teardown_inv c g ts (g, ts)"
proof -
  have f: "filter in_critical_section ts = []"
    using assms(2) by (auto simp add: filter_empty_conv list_all_iff in_critical_section_def)
  have s: "sum_list (map (\<lambda>t. if has_added t then num_refs (e_data t) else 0) ts) = 0"
    using assms(2) by (intro sum_list_all_zero) (auto simp add: list_all_iff has_added_def)
  have a: "list_all (\<lambda>t. if e_pc t = At_store then e_tmp t = num_refs_g g else True) ts"
    using assms(2) by (auto simp add: list_all_iff)
  have l: "list_all2 (\<lambda>t0 t. buffer_ok c (e_data t0) \<and>
                     (if e_pc t = At_memtrace then e_data t = e_data t0
                      else memtrace c (e_data t0) = Some (e_data t))) ts ts"
    using assms(2) by (auto simp add: list_all2_same list_all_iff)
  show ?thesis
    using assms(1) f a l s unfolding teardown_inv_def by simp
qed

lemma inv_step:
  assumes "teardown_inv c g0 ts0 (g, pre @ t # post)" "exit_step c g t = Some (g', t')"
  shows "teardown_inv c g0 ts0 (g', pre @ t' # post)"
proof -
  let ?P = "\<lambda>t0 t. buffer_ok c (e_data t0) \<and>
                     (if e_pc t = At_memtrace then e_data t = e_data t0
                      else memtrace c (e_data t0) = Some (e_data t))"
  let ?f = "\<lambda>t. if has_added t then num_refs (e_data t) else 0"
  let ?Q = "\<lambda>v t. if e_pc t = At_store then e_tmp t = v else True"
  define A where "A = sum_list (map ?f pre)"
  define B where "B = sum_list (map ?f post)"
  define m where "m = length (filter in_critical_section pre)"
  define k where "k = length (filter in_critical_section post)"
  obtain pre0 t0 post0 where ts0: "ts0 = pre0 @ t0 # post0"
    and p1: "list_all2 ?P pre0 pre" and p2: "?P t0 t" and p3: "list_all2 ?P post0 post"
    using assms(1) unfolding teardown_inv_def
    by (auto simp add: list_all2_append2 list_all2_Cons2)
  have n: "m + (if in_critical_section t then 1 else 0) + k = (if mutex_held g then 1 else 0)"
    using assms(1) unfolding m_def k_def
    by (cases "in_critical_section t") (simp_all add: teardown_inv_def)
  have s: "num_refs_g g = num_refs_g g0 + (A + ?f t + B)"
    using assms(1) by (simp add: teardown_inv_def add.assoc A_def B_def)
  have q: "list_all (?Q (num_refs_g g)) pre" "?Q (num_refs_g g) t" "list_all (?Q (num_refs_g g)) post"
    using assms(1) by (simp_all add: teardown_inv_def)
  have goal: "m + (if in_critical_section t' then 1 else 0) + k = (if mutex_held g' then 1 else 0) \<and>
      num_refs_g g' = num_refs_g g0 + (A + ?f t' + B) \<and>
      list_all (?Q (num_refs_g g')) pre \<and> ?Q (num_refs_g g') t' \<and>
      list_all (?Q (num_refs_g g')) post \<and> ?P t0 t'"
  proof (cases "e_pc t")
    case At_memtrace
    then obtain d where d: "memtrace c (e_data t) = Some d" and g': "g' = g"
      and t': "t' = t\<lparr>e_data := d, e_pc := At_lock\<rparr>"
      using assms(2) by (auto simp add: exit_step_def split: option.splits)
    have c1: "in_critical_section t' = in_critical_section t" "?f t' = ?f t"
      using At_memtrace by (simp_all add: t' in_critical_section_def has_added_def)
    have G1: "m + (if in_critical_section t' then 1 else 0) + k = (if mutex_held g' then 1 else 0)"
      unfolding c1 g' by (rule n)
    have G2: "num_refs_g g' = num_refs_g g0 + (A + ?f t' + B)"
      unfolding c1 g' by (rule s)
    have G3: "list_all (?Q (num_refs_g g')) pre" unfolding g' by (rule q(1))
    have G4: "?Q (num_refs_g g') t'" by (simp add: t')
    have G5: "list_all (?Q (num_refs_g g')) post" unfolding g' by (rule q(3))
    have G6: "?P t0 t'" using p2 At_memtrace d by (simp add: t')
    show ?thesis by (intro conjI G1 G2 G3 G4 G5 G6[THEN conjunct1] G6[THEN conjunct2])
  next
    case At_lock
    then have h: "\<not> mutex_held g" and g': "g' = g\<lparr>mutex_held := True\<rparr>"
      and t': "t' = t\<lparr>e_pc := At_load\<rparr>"
      using assms(2) by (auto simp add: exit_step_def dr_mutex_lock_def split: if_splits)
    have c1: "\<not> in_critical_section t" "in_critical_section t'" "?f t' = ?f t"
      using At_lock by (simp_all add: t' in_critical_section_def has_added_def)
    have e: "num_refs_g g' = num_refs_g g" and h': "mutex_held g'" by (simp_all add: g')
    have mk: "m + k = 0" using n h c1(1) by simp
    have G1: "m + (if in_critical_section t' then 1 else 0) + k = (if mutex_held g' then 1 else 0)"
      using mk c1(2) h' by simp
    have G2: "num_refs_g g' = num_refs_g g0 + (A + ?f t' + B)"
      unfolding c1 e by (rule s)
    have G3: "list_all (?Q (num_refs_g g')) pre" unfolding e by (rule q(1))
    have G4: "?Q (num_refs_g g') t'" by (simp add: t')
    have G5: "list_all (?Q (num_refs_g g')) post" unfolding e by (rule q(3))
    have G6: "?P t0 t'" using p2 At_lock by (simp add: t')
    show ?thesis by (intro conjI G1 G2 G3 G4 G5 G6[THEN conjunct1] G6[THEN conjunct2])
  next
    case At_load
    then have g': "g' = g" and t': "t' = t\<lparr>e_tmp := num_refs_g g, e_pc := At_store\<rparr>"
      using assms(2) by (auto simp add: exit_step_def)
    have c1: "in_critical_section t' = in_critical_section t" "?f t' = ?f t"
      using At_load by (simp_all add: t' in_critical_section_def has_added_def)
    have G1: "m + (if in_critical_section t' then 1 else 0) + k = (if mutex_held g' then 1 else 0)"
      unfolding c1 g' by (rule n)
    have G2: "num_refs_g g' = num_refs_g g0 + (A + ?f t' + B)"
      unfolding c1 g' by (rule s)
    have G3: "list_all (?Q (num_refs_g g')) pre" unfolding g' by (rule q(1))
    have G4: "?Q (num_refs_g g') t'" by (simp add: t' g')
    have G5: "list_all (?Q (num_refs_g g')) post" unfolding g' by (rule q(3))
    have G6: "?P t0 t'" using p2 At_load by (simp add: t')
    show ?thesis by (intro conjI G1 G2 G3 G4 G5 G6[THEN conjunct1] G6[THEN conjunct2])
  next
    case At_store
    then have cs: "in_critical_section t" by (simp add: in_critical_section_def)
    have mk: "m = 0" "k = 0" and h: "mutex_held g"
      using n cs by (auto split: if_splits)
    have "\<forall>x\<in>set pre \<union> set post. e_pc x \<noteq> At_store"
      using mk unfolding m_def k_def
      by (auto simp add: filter_empty_conv in_critical_section_def)
    then have G3: "list_all (?Q (num_refs_g g')) pre" and G5: "list_all (?Q (num_refs_g g')) post"
      by (auto simp add: list_all_iff)
    have tmp: "e_tmp t = num_refs_g g" using q(2) At_store by simp
    have g': "g' = g\<lparr>num_refs_g := num_refs_g g + num_refs (e_data t)\<rparr>"
      and t': "t' = t\<lparr>e_pc := At_unlock\<rparr>"
      using assms(2) At_store tmp by (auto simp add: exit_step_def)
    have c1: "in_critical_section t'" "?f t = 0" "?f t' = num_refs (e_data t)"
      using At_store by (simp_all add: t' in_critical_section_def has_added_def)
    have h': "mutex_held g'" using h by (simp add: g')
    have G1: "m + (if in_critical_section t' then 1 else 0) + k = (if mutex_held g' then 1 else 0)"
      using mk c1(1) h' by simp
    have s': "num_refs_g g = num_refs_g g0 + (A + B)" using s unfolding c1(2) by simp
    have G2: "num_refs_g g' = num_refs_g g0 + (A + ?f t' + B)"
      unfolding c1(3) by (simp add: g' s')
    have G4: "?Q (num_refs_g g') t'" by (simp add: t')
    have G6: "?P t0 t'" using p2 At_store by (simp add: t')
    show ?thesis by (intro conjI G1 G2 G3 G4 G5 G6[THEN conjunct1] G6[THEN conjunct2])
  next
    case At_unlock
    then have g': "g' = g\<lparr>mutex_held := False\<rparr>" and t': "t' = t\<lparr>e_pc := Exited\<rparr>"
      using assms(2) by (auto simp add: exit_step_def dr_mutex_unlock_def)
    have c1: "in_critical_section t" "\<not> in_critical_section t'" "?f t' = ?f t"
      using At_unlock by (simp_all add: t' in_critical_section_def has_added_def)
    have e: "num_refs_g g' = num_refs_g g" and h': "\<not> mutex_held g'" by (simp_all add: g')
    have mk: "m + k = 0" using n c1(1) by (simp split: if_splits)
    have G1: "m + (if in_critical_section t' then 1 else 0) + k = (if mutex_held g' then 1 else 0)"
      using mk c1(2) h' by simp
    have G2: "num_refs_g g' = num_refs_g g0 + (A + ?f t' + B)"
      unfolding c1 e by (rule s)
    have G3: "list_all (?Q (num_refs_g g')) pre" unfolding e by (rule q(1))
    have G4: "?Q (num_refs_g g') t'" by (simp add: t')
    have G5: "list_all (?Q (num_refs_g g')) post" unfolding e by (rule q(3))
    have G6: "?P t0 t'" using p2 At_unlock by (simp add: t')
    show ?thesis by (intro conjI G1 G2 G3 G4 G5 G6[THEN conjunct1] G6[THEN conjunct2])
  next
    case Exited
    then show ?thesis using assms(2) by (simp add: exit_step_def)
  qed
  have len: "length pre0 = length pre" using p1 by (rule list_all2_lengthD)
  have cs: "length (filter in_critical_section (pre @ t' # post)) =
      m + (if in_critical_section t' then 1 else 0) + k"
    by (simp add: m_def k_def)
  have sm: "sum_list (map ?f (pre @ t' # post)) = A + ?f t' + B"
    by (simp add: A_def B_def add.assoc)
  have l2: "list_all2 ?P ts0 (pre @ t' # post)"
    unfolding ts0 using p1 p3 goal by (intro list_all2_appendI) simp_all
  have la: "list_all (?Q (num_refs_g g')) (pre @ t' # post)"
    using goal by simp
  show ?thesis
    unfolding teardown_inv_def prod.case cs sm
    using goal l2 la by blast
qed

lemma teardown_inv_run:
  "teardown_inv c g0 ts0 (g, ts) \<Longrightarrow> teardown_inv c g0 ts0 (teardown c sched (g, ts))"
proof (induction sched arbitrary: g ts)
  case Nil
  then show ?case by simp
next
  case (Cons i sched)
  show ?case
  proof (cases "i < length ts")
    case False
    then show ?thesis using Cons by simp
  next
    case True
    show ?thesis
    proof (cases "exit_step c g (ts ! i)")
      case None
      then show ?thesis using Cons True by simp
    next
      case (Some a)
      obtain g' t' where a: "a = (g', t')" by (cases a)
      have e: "take i ts @ ts ! i # drop (Suc i) ts = ts"
        using True by (rule id_take_nth_drop [symmetric])
      have "teardown_inv c g0 ts0 (g, take i ts @ ts ! i # drop (Suc i) ts)"
        unfolding e by (rule Cons.prems)
      moreover have "exit_step c g (ts ! i) = Some (g', t')" using Some a by simp
      ultimately have "teardown_inv c g0 ts0 (g', take i ts @ t' # drop (Suc i) ts)"
        by (rule inv_step)
      then have "teardown_inv c g0 ts0 (g', ts[i := t'])"
        using True by (simp add: upd_conv_take_nth_drop)
      then have "teardown_inv c g0 ts0 (teardown c sched (g', ts[i := t']))"
        by (rule Cons.IH)
      then show ?thesis using True Some a by simp
    qed
  qed
qed

lemma teardown_progress:
  assumes "teardown_inv c g0 ts0 (g, ts)"
  shows "(\<exists>i<length ts. exit_step c g (ts ! i) \<noteq> None) \<or> list_all (\<lambda>t. e_pc t = Exited) ts"
proof (cases "list_all (\<lambda>t. e_pc t = Exited) ts")
  case True
  then show ?thesis by simp
next
  case False
  have n: "length (filter in_critical_section ts) = (if mutex_held g then 1 else 0)"
    and l: "list_all2 (\<lambda>t0 t. buffer_ok c (e_data t0) \<and>
                     (if e_pc t = At_memtrace then e_data t = e_data t0
                      else memtrace c (e_data t0) = Some (e_data t))) ts0 ts"
    using assms by (simp_all add: teardown_inv_def)
  have "\<exists>i<length ts. exit_step c g (ts ! i) \<noteq> None"
  proof (cases "mutex_held g")
    case True
    then have "filter in_critical_section ts \<noteq> []" using n by auto
    then obtain t where "t \<in> set ts" "in_critical_section t"
      by (auto simp add: filter_empty_conv)
    then obtain i where "i < length ts" "in_critical_section (ts ! i)"
      by (auto simp add: in_set_conv_nth)
    moreover have "in_critical_section (ts ! i) \<Longrightarrow> exit_step c g (ts ! i) \<noteq> None"
      by (auto simp add: in_critical_section_def exit_step_def)
    ultimately show ?thesis by blast
  next
    case free: False
    then have none: "\<forall>t\<in>set ts. \<not> in_critical_section t"
      using n by (simp add: filter_empty_conv)
    obtain i where i: "i < length ts" and x: "e_pc (ts ! i) \<noteq> Exited"
      using False by (auto simp add: list_all_length)
    have ncs: "\<not> in_critical_section (ts ! i)" using none i by simp
    have p: "buffer_ok c (e_data (ts0 ! i))"
        "e_pc (ts ! i) = At_memtrace \<Longrightarrow> e_data (ts ! i) = e_data (ts0 ! i)"
      using list_all2_nthD2 [OF l i] by simp_all
    have "exit_step c g (ts ! i) \<noteq> None"
    proof (cases "e_pc (ts ! i)")
      case At_memtrace
      then show ?thesis
        using p by (simp add: exit_step_def memtrace_ok)
    next
      case At_lock
      then show ?thesis using free by (simp add: exit_step_def dr_mutex_lock_def)
    qed (use x ncs in \<open>simp_all add: in_critical_section_def\<close>)
    then show ?thesis using i by blast
  qed
  then show ?thesis by simp
qed

lemma sum_list_of_nat:
  fixes f :: "'b \<Rightarrow> 64 word"
  shows "list_all2 (\<lambda>x y. f y = of_nat (h x)) xs ys \<Longrightarrow>
     sum_list (map f ys) = of_nat (sum_list (map h xs))"
  by (induction rule: list_all2_induct) simp_all

lemma critical_section_locked:
  assumes "length (filter in_critical_section ts) = (if mutex_held g then 1 else 0)"
  shows "list_all (\<lambda>t. if in_critical_section t then mutex_held g else True) ts"
proof (cases "mutex_held g")
  case True
  then show ?thesis by (simp add: list_all_iff)
next
  case False
  then have "\<forall>t\<in>set ts. \<not> in_critical_section t"
    using assms by (simp add: filter_empty_conv)
  then show ?thesis by (simp add: list_all_iff)
qed

lemma exit_alone:
  assumes "buffer_ok c s" "\<not> mutex_held g"
  shows "\<exists>g1 s1. event_thread_exit c g s = Some (g1, s1) \<and>
     teardown c [0, 0, 0, 0, 0] (g, [\<lparr>e_pc = At_memtrace, e_data = s, e_tmp = x\<rparr>]) =
       (g1, [\<lparr>e_pc = Exited, e_data = s1, e_tmp = num_refs_g g\<rparr>])"
  using assms(2)
  by (simp add: event_thread_exit_def exit_step_def memtrace_ok [OF assms(1)]
        dr_mutex_lock_def dr_mutex_unlock_def)

lemma teardown_all_exited:
  assumes "0 < c" "c < 2 ^ 31"
    and init: "list_all2 (\<lambda>spec t. thread_run c spec = Some (e_data t) \<and> e_pc t = At_memtrace) specs ts"
    and fin: "list_all2 (\<lambda>t t'. if e_pc t' = At_memtrace then e_data t' = e_data t
                          else memtrace c (e_data t) = Some (e_data t')) ts ts'"
    and ex: "list_all (\<lambda>t'. e_pc t' = Exited) ts'"
  shows "list_all2 (\<lambda>spec t'.
            ref_lines (log (e_data t')) = map ref_line (concat (map traced_refs (t_code spec))) \<and>
            num_refs (e_data t') = of_nat (length (concat (map traced_refs (t_code spec))))) specs ts'"
proof -
  have len: "length specs = length ts" "length ts = length ts'"
    using init fin by (simp_all add: list_all2_lengthD)
  have each: "ref_lines (log (e_data (ts' ! i))) =
          map ref_line (concat (map traced_refs (t_code (specs ! i)))) \<and>
        num_refs (e_data (ts' ! i)) = of_nat (length (concat (map traced_refs (t_code (specs ! i)))))"
    if i: "i < length specs" for i
  proof -
    let ?n = "length (concat (map traced_refs (t_code (specs ! i))))"
    have r: "thread_run c (specs ! i) = Some (e_data (ts ! i))"
      using list_all2_nthD [OF init i] by simp
    have i': "i < length ts" "i < length ts'" using i len by simp_all
    have "e_pc (ts' ! i) = Exited" using ex i'(2) by (simp add: list_all_length)
    then have m: "memtrace c (e_data (ts ! i)) = Some (e_data (ts' ! i))"
      using list_all2_nthD [OF fin i'(1)] by simp
    obtain s s' where "thread_run c (specs ! i) = Some s" "memtrace c s = Some s'"
      and f: "ref_lines (log s') = map ref_line (concat (map traced_refs (t_code (specs ! i))))"
        "num_refs s' = of_nat ?n"
      using thread_life_steps [OF assms(1,2), of no_refs "specs ! i"]
      by (auto simp add: no_refs_def)
    then have "s' = e_data (ts' ! i)" using r m by simp
    then show ?thesis using f by simp
  qed
  show ?thesis
    unfolding list_all2_conv_all_nth using len each by simp
qed

lemma teardown_length:
  "length (snd (teardown c sched (g, ts))) = length ts"
proof (induction sched arbitrary: g ts)
  case Nil
  then show ?case by simp
next
  case (Cons i sched)
  show ?case
    by (cases "exit_step c g (ts ! i)") (auto simp add: Cons.IH)
qed

section \<open>The claims\<close>

text \<open>
  C1.  Take an instruction with an application address for which the framework's
  answers agree: it reads memory if one of its sources is a memory reference, and it
  writes memory if one of its destinations is one.  Running the code inserted for it
  adds exactly one line per memory operand to what the thread has recorded: first the
  lines of the memory sources, in the order of the sources, then the lines of the
  memory destinations, in the order of the destinations, each with the application
  address of the instruction.  The lines are in the log or still in the buffer,
  according to whether the buffer became full on the way.
\<close>

theorem one_record_per_memory_operand:
  fixes s :: machine
  assumes "running c s" "writable (log s)" "app_pc inst \<noteq> 0"
    "(\<exists>ref\<in>set (srcs inst). is_memory_reference ref) \<longrightarrow> reads_memory inst"
    "(\<exists>ref\<in>set (dsts inst). is_memory_reference ref) \<longrightarrow> writes_memory inst"
  shows "\<exists>s' new. run_instr c inst s = Some s' \<and> recorded s' = recorded s @ new \<and>
     new = map (\<lambda>ref. Ref_line (app_pc inst) CHR ''r'' (mem_size_in_bytes ref) (mem_addr ref))
               (filter is_memory_reference (srcs inst)) @
           map (\<lambda>ref. Ref_line (app_pc inst) CHR ''w'' (mem_size_in_bytes ref) (mem_addr ref))
               (filter is_memory_reference (dsts inst)) \<and>
     length new = length (filter is_memory_reference (srcs inst)) +
                  length (filter is_memory_reference (dsts inst))"
proof -
  obtain s' where "run_instr c inst s = Some s'"
    and "recorded s' = recorded s @ map ref_line (traced_refs inst)"
    using run_instr_recorded [OF assms(1,2)] by blast
  then show ?thesis
    unfolding traced_refs_guards [OF assms(3-5)]
    by (simp add: mem_refs_def mem_ref_of_def ref_line_def comp_def)
qed

theorem one_record_per_memory_operand_witness:
  "running 2 (fresh 2) \<and> writable (log (fresh 2)) \<and> app_pc three_operands \<noteq> 0 \<and>
   reads_memory three_operands \<and> writes_memory three_operands \<and>
   recorded (fresh 2) = [] \<and>
   (\<exists>s'. run_instr 2 three_operands (fresh 2) = Some s' \<and>
      recorded s' = [Ref_line 200 CHR ''r'' 4 1000, Ref_line 200 CHR ''r'' 8 2000,
                     Ref_line 200 CHR ''w'' 2 3000])"
proof -
  have r: "running 2 (fresh 2)" by (simp add: fresh_def running_start)
  have w: "writable (log (fresh 2))" by (simp add: fresh_facts new_log_def)
  have p: "app_pc three_operands \<noteq> 0" by (simp add: three_operands_def)
  have g: "(\<exists>ref\<in>set (srcs three_operands). is_memory_reference ref) \<longrightarrow> reads_memory three_operands"
    "(\<exists>ref\<in>set (dsts three_operands). is_memory_reference ref) \<longrightarrow> writes_memory three_operands"
    by (simp_all add: three_operands_def)
  have e: "recorded (fresh 2) = []"
    by (simp add: fresh_def start_facts new_log_def ref_lines_def)
  show ?thesis
    using r w p e one_record_per_memory_operand [OF r w p g]
    by (auto simp add: three_operands_def)
qed

text \<open>
  C2, with the last dump corrected.  A thread whose instrumented references number
  \<open>n\<close> has dumped its buffer of \<open>c\<close> records \<open>floor(n/c)\<close> times when its last
  instruction has run, and \<open>event_thread_exit\<close> dumps it once more whatever \<open>n mod c\<close>
  is: each dump writes one header, and the log holds \<open>floor(n/c)\<close> headers before the
  exit and \<open>floor(n/c) + 1\<close> after it.
\<close>

theorem flushes_of_a_thread:
  assumes "0 < c" "c < 2 ^ 31" "\<not> mutex_held g"
  shows "\<exists>s g' s'. thread_run c t = Some s \<and>
     flushes (log s) = length (concat (map traced_refs (t_code t))) div c \<and>
     event_thread_exit c g s = Some (g', s') \<and>
     flushes (log s') = length (concat (map traced_refs (t_code t))) div c + 1"
  using thread_life_steps [OF assms, of t] by blast

theorem flushes_of_a_thread_witness:
  "(0::nat) < 2 \<and> (2::nat) < 2 ^ 31 \<and> \<not> mutex_held no_refs \<and>
   (\<exists>s g' s'. thread_run 2 scenario = Some s \<and> flushes (log s) = 2 \<and>
      event_thread_exit 2 no_refs s = Some (g', s') \<and> flushes (log s') = 3)"
proof -
  have h: "(0::nat) < 2" "(2::nat) < 2 ^ 31" "\<not> mutex_held no_refs"
    by (simp_all add: no_refs_def)
  have n: "length (concat (map traced_refs (t_code scenario))) = 5"
    by (simp add: scenario_def traced_refs_def load_instr_def store_instr_def)
  show ?thesis
    using h flushes_of_a_thread [OF h, of scenario] unfolding n by simp
qed

text \<open>
  With the last dump only if \<open>n mod c > 0\<close>, the count is wrong for a thread that makes
  two references with a buffer of two records: its log holds two headers, one from
  the dump of the full buffer and one from the exit, where the specification counts
  one.
\<close>

theorem final_flush_counterexample:
  "\<exists>g s. thread_life 2 no_refs two_accesses = Some (g, s) \<and>
     length (concat (map traced_refs (t_code two_accesses))) = 2 \<and>
     flushes (log s) = 2 \<and>
     claimed_flushes (length (concat (map traced_refs (t_code two_accesses)))) 2 = 1 \<and>
     flushes (log s) \<noteq>
       claimed_flushes (length (concat (map traced_refs (t_code two_accesses)))) 2"
proof -
  have h: "(0::nat) < 2" "(2::nat) < 2 ^ 31" "\<not> mutex_held no_refs"
    by (simp_all add: no_refs_def)
  show ?thesis
    using thread_life_steps [OF h, of two_accesses] unfolding two_accesses_refs
    by (auto simp add: thread_life_def claimed_flushes_def)
qed

text \<open>
  C3.  A dump to a log that can be written appends the header and then one line for
  each record between \<open>buf_base\<close> and \<open>buf_ptr\<close>, oldest first, with the record's pc,
  direction, size and address; it adds the number of these records to the thread's
  counter, rewinds \<open>buf_ptr\<close> to \<open>buf_base\<close> and leaves the buffer zeroed.  The lines
  determine the records.  Over the life of a thread, the reference lines of its log
  are the lines of the references it made through instrumented operands, in the
  order in which it made them.
\<close>

theorem flush_writes_pending_in_order:
  fixes s :: machine
  assumes "0 < c" "c < 2 ^ 31"
  shows "(buffer_ok c s \<and> writable (log s) \<longrightarrow>
           (\<exists>s'. memtrace c s = Some s' \<and>
              lines (log s') = lines (log s) @ Format_line # map ref_line (pending s) \<and>
              num_refs s' = num_refs s + of_nat (length (pending s)) \<and>
              buf_ptr s' = buf_base s' \<and> buf s' = replicate c zero_mem_ref)) \<and>
         (\<not> mutex_held g \<longrightarrow>
           (\<exists>g' s'. thread_life c g t = Some (g', s') \<and>
              ref_lines (log s') = map ref_line (concat (map traced_refs (t_code t))))) \<and>
         inj ref_line \<and>
         (\<forall>r. ref_line r =
               Ref_line (pc r) (if write_m r then CHR ''w'' else CHR ''r'') (size_m r) (addr r))"
proof (intro conjI impI allI)
  assume h: "buffer_ok c s \<and> writable (log s)"
  then show "\<exists>s'. memtrace c s = Some s' \<and>
              lines (log s') = lines (log s) @ Format_line # map ref_line (pending s) \<and>
              num_refs s' = num_refs s + of_nat (length (pending s)) \<and>
              buf_ptr s' = buf_base s' \<and> buf s' = replicate c zero_mem_ref"
    using memtrace_writable [of c s] length_pending [of c s] by auto
next
  assume "\<not> mutex_held g"
  from thread_life_steps [OF assms this, of t]
  show "\<exists>g' s'. thread_life c g t = Some (g', s') \<and>
              ref_lines (log s') = map ref_line (concat (map traced_refs (t_code t)))"
    by (auto simp add: thread_life_def)
next
  show "inj ref_line" by (rule inj_ref_line)
next
  fix r
  show "ref_line r = Ref_line (pc r) (if write_m r then CHR ''w'' else CHR ''r'') (size_m r) (addr r)"
    by (simp add: ref_line_def)
qed

theorem flush_writes_pending_in_order_witness:
  "(0::nat) < 2 \<and> (2::nat) < 2 ^ 31 \<and> buffer_ok 2 half_full \<and> writable (log half_full) \<and>
   \<not> mutex_held no_refs \<and>
   (\<exists>s'. memtrace 2 half_full = Some s' \<and>
      lines (log s') = [Format_line, Ref_line 100 CHR ''r'' 4 1000] \<and>
      num_refs s' = 1 \<and> buf_ptr s' = buf_base s' \<and> buf s' = [zero_mem_ref, zero_mem_ref]) \<and>
   (\<exists>g' s'. thread_life 2 no_refs scenario = Some (g', s') \<and>
      ref_lines (log s') =
        [Ref_line 100 CHR ''r'' 4 1000, Ref_line 104 CHR ''w'' 4 1008,
         Ref_line 108 CHR ''r'' 4 1016, Ref_line 112 CHR ''r'' 4 1024,
         Ref_line 116 CHR ''w'' 4 1032])"
proof -
  have h: "(0::nat) < 2" "(2::nat) < 2 ^ 31" by simp_all
  have m: "\<not> mutex_held no_refs" by (simp add: no_refs_def)
  have p: "pending half_full = [\<lparr>write_m = False, addr = 1000, size_m = 4, pc = 100\<rparr>]"
    by (simp add: pending_def half_full_ok) (simp add: half_full_def)
  have l: "lines (log half_full) = []" by (simp add: half_full_def new_log_def)
  have n: "num_refs half_full = 0" by (simp add: half_full_def)
  have e: "replicate 2 zero_mem_ref = [zero_mem_ref, zero_mem_ref]"
    by (simp add: numeral_2_eq_2)
  have t: "map ref_line (concat (map traced_refs (t_code scenario))) =
        [Ref_line 100 CHR ''r'' 4 1000, Ref_line 104 CHR ''w'' 4 1008,
         Ref_line 108 CHR ''r'' 4 1016, Ref_line 112 CHR ''r'' 4 1024,
         Ref_line 116 CHR ''w'' 4 1032]"
    by (simp add: scenario_def traced_refs_def load_instr_def store_instr_def mem_ref_of_def ref_line_def)
  show ?thesis
    using h m half_full_ok(1,2)
      flush_writes_pending_in_order [OF h, of half_full no_refs scenario]
    unfolding p l n e t
    by (simp add: ref_line_def)
qed

text \<open>
  C4, with the header and the zeroing kept.  A dump of an empty buffer writes no
  reference line and leaves the thread's counter and \<open>buf_ptr = buf_base\<close> as they are;
  it does write the header to the log and it zeroes the buffer.
\<close>

theorem flush_of_empty_buffer:
  fixes s :: machine
  assumes "buf_ptr s = buf_base s" "c \<le> length (buf s)"
  shows "\<exists>s'. memtrace c s = Some s' \<and>
     log s' = dr_fprintf (log s) Format_line \<and>
     ref_lines (log s') = ref_lines (log s) \<and>
     num_refs s' = num_refs s \<and>
     buf_ptr s' = buf_base s' \<and> buf_base s' = buf_base s \<and>
     buf s' = replicate c zero_mem_ref @ drop c (buf s)"
  using assms by (simp add: memtrace_def pending_refs_empty ref_lines_header)

theorem flush_of_empty_buffer_witness:
  "buf_ptr (fresh 2) = buf_base (fresh 2) \<and> 2 \<le> length (buf (fresh 2)) \<and>
   (\<exists>s'. memtrace 2 (fresh 2) = Some s' \<and>
     log s' = \<lparr>lines = [Format_line], writable = True\<rparr> \<and>
     ref_lines (log s') = [] \<and>
     num_refs s' = 0 \<and>
     buf_ptr s' = buf_base s' \<and> buf_base s' = 4096 \<and>
     buf s' = [zero_mem_ref, zero_mem_ref])"
proof -
  have h: "buf_ptr (fresh 2) = buf_base (fresh 2)" "2 \<le> length (buf (fresh 2))"
    by (simp_all add: fresh_facts)
  have e: "replicate 2 zero_mem_ref = [zero_mem_ref, zero_mem_ref]"
    by (simp add: numeral_2_eq_2)
  show ?thesis
    using h flush_of_empty_buffer [OF h]
    by (simp add: fresh_facts new_log_def dr_fprintf_def ref_lines_def e)
       (simp add: fresh_def thread_start_def event_thread_init_def)
qed

text \<open>
  The dump of an empty buffer is not without effect: after it the log of a thread
  that has just started holds the header.
\<close>

theorem empty_flush_counterexample:
  "pending (fresh 2) = [] \<and>
   memtrace 2 (fresh 2) \<noteq> Some (fresh 2) \<and>
   lines (log (fresh 2)) = [] \<and>
   map_option (\<lambda>s. lines (log s)) (memtrace 2 (fresh 2)) = Some [Format_line]"
proof -
  have l: "map_option (\<lambda>s. lines (log s)) (memtrace 2 (fresh 2)) = Some [Format_line]"
    by (simp add: memtrace_def pending_refs_empty fresh_facts new_log_def dr_fprintf_def)
  have l0: "lines (log (fresh 2)) = []"
    by (simp add: fresh_facts new_log_def)
  have "memtrace 2 (fresh 2) \<noteq> Some (fresh 2)"
  proof
    assume "memtrace 2 (fresh 2) = Some (fresh 2)"
    then show False using l l0 by simp
  qed
  moreover have "pending (fresh 2) = []"
    by (simp add: pending_def filled_def fresh_facts)
  ultimately show ?thesis using l l0 by simp
qed

text \<open>
  C5.  The members of \<open>mem_ref_t\<close> lie in the order \<open>write\<close>, \<open>addr\<close>, \<open>size\<close>, \<open>pc\<close>.  The
  stores of the fast path into the record are, in this order, those of \<open>write\<close>,
  \<open>addr\<close>, \<open>size\<close> and \<open>pc\<close>, all through the register that holds \<open>buf_ptr\<close>; the next
  three instructions add \<open>sizeof(mem_ref_t)\<close> to that register and store it to
  \<open>buf_ptr\<close>.  Run on a buffer that is not full, the first twelve instructions fill
  the record at \<open>buf_ptr\<close> with the four values and advance \<open>buf_ptr\<close> by one record.
\<close>

theorem fast_path_fills_record_in_order:
  fixes s :: machine
  assumes "running c s"
  shows "map offsetof_mem_ref_t [Write, Addr, Size, Pc] = [0, 8, 16, 24] \<and>
     sizeof_mem_ref_t = 32 \<and>
     filter is_ref_store (instrument_mem inst pos w) =
       [Mov_imm_ref DR_REG_XCX (offsetof_mem_ref_t Write) (of_bool w),
        Mov_st_ref DR_REG_XCX (offsetof_mem_ref_t Addr) DR_REG_XBX,
        Mov_imm_ref DR_REG_XCX (offsetof_mem_ref_t Size)
          (mem_size_in_bytes (if w then dsts inst ! pos else srcs inst ! pos)),
        Mov_imm_ref DR_REG_XCX (offsetof_mem_ref_t Pc) (app_pc inst)] \<and>
     take 3 (drop 9 (instrument_mem inst pos w)) =
       [Lea DR_REG_XCX DR_REG_XCX None 0 sizeof_mem_ref_t,
        Read_tls_field DR_REG_XBX,
        Mov_st DR_REG_XBX (offsetof_per_thread_t Buf_ptr) DR_REG_XCX] \<and>
     slot_of s (buf_ptr s) = Some (filled s) \<and>
     (\<exists>s'. exec c None (take 12 (instrument_mem inst pos w)) s = Some s' \<and>
        buf s' = (buf s)[filled s :=
                   \<lparr>write_m = w,
                    addr = mem_addr (if w then dsts inst ! pos else srcs inst ! pos),
                    size_m = mem_size_in_bytes (if w then dsts inst ! pos else srcs inst ! pos),
                    pc = app_pc inst\<rparr>] \<and>
        buf_ptr s' = buf_ptr s + of_nat sizeof_mem_ref_t)"
proof (intro conjI)
  show "map offsetof_mem_ref_t [Write, Addr, Size, Pc] = [0, 8, 16, 24]" by simp
  show "sizeof_mem_ref_t = 32" by (simp add: sizeof_mem_ref_t_def)
  show "filter is_ref_store (instrument_mem inst pos w) =
       [Mov_imm_ref DR_REG_XCX (offsetof_mem_ref_t Write) (of_bool w),
        Mov_st_ref DR_REG_XCX (offsetof_mem_ref_t Addr) DR_REG_XBX,
        Mov_imm_ref DR_REG_XCX (offsetof_mem_ref_t Size)
          (mem_size_in_bytes (if w then dsts inst ! pos else srcs inst ! pos)),
        Mov_imm_ref DR_REG_XCX (offsetof_mem_ref_t Pc) (app_pc inst)]"
    by (simp add: instrument_mem_def is_ref_store_def Let_def)
  show "take 3 (drop 9 (instrument_mem inst pos w)) =
       [Lea DR_REG_XCX DR_REG_XCX None 0 sizeof_mem_ref_t,
        Read_tls_field DR_REG_XBX,
        Mov_st DR_REG_XBX (offsetof_per_thread_t Buf_ptr) DR_REG_XCX]"
    by (simp add: instrument_mem_def Let_def)
  show "slot_of s (buf_ptr s) = Some (filled s)"
    using assms by (rule slot_of_cursor)
  show "\<exists>s'. exec c None (take 12 (instrument_mem inst pos w)) s = Some s' \<and>
        buf s' = (buf s)[filled s :=
                   \<lparr>write_m = w,
                    addr = mem_addr (if w then dsts inst ! pos else srcs inst ! pos),
                    size_m = mem_size_in_bytes (if w then dsts inst ! pos else srcs inst ! pos),
                    pc = app_pc inst\<rparr>] \<and>
        buf_ptr s' = buf_ptr s + of_nat sizeof_mem_ref_t"
    by (simp add: exec_record_stored [OF assms] mem_ref_of_def)
qed

theorem fast_path_fills_record_in_order_witness:
  "running 2 half_full \<and>
   slot_of half_full (buf_ptr half_full) = Some 1 \<and>
   (\<exists>s'. exec 2 None (take 12 (instrument_mem (store_instr 104 1008) 0 True)) half_full = Some s' \<and>
      buf s' = [\<lparr>write_m = False, addr = 1000, size_m = 4, pc = 100\<rparr>,
                \<lparr>write_m = True, addr = 1008, size_m = 4, pc = 104\<rparr>] \<and>
      buf_ptr s' = 4160)"
proof -
  have r: "running 2 half_full" using half_full_ok by (simp add: running_def)
  show ?thesis
    using r fast_path_fills_record_in_order [OF r, of "store_instr 104 1008" 0 True]
    by (auto simp add: half_full_ok sizeof_mem_ref_t_def store_instr_def)
       (simp_all add: half_full_def)
qed

text \<open>
  C6.  A record has 32 bytes, and \<open>event_thread_init\<close> sets \<open>buf_end\<close> to
  \<open>- (base + capacity * record_size)\<close> with \<open>buf_base\<close> and \<open>buf_ptr\<close> at the base.  The
  equality holds in every running state, and the inserted code (the append, with the
  dump it triggers when the buffer fills) and \<open>memtrace\<close> (the dump and the reset)
  keep it: they leave \<open>buf_base\<close> and \<open>buf_end\<close> as they are.  The first fourteen
  inserted instructions end with the \<open>lea\<close> that adds the advanced \<open>buf_ptr\<close> to
  \<open>buf_end\<close>; its result in \<open>xcx\<close> is zero exactly when the advanced \<open>buf_ptr\<close> is
  \<open>base + capacity * record_size\<close>, which is when the buffer has become full.  The
  fifteenth instruction is the \<open>jecxz\<close>: from there the code goes to the clean call
  exactly when \<open>xcx\<close> is zero, and so the whole inserted code is the append followed
  by the clean call exactly when the advanced \<open>buf_ptr\<close> has reached
  \<open>base + capacity * record_size\<close>, and the append alone otherwise.
\<close>

theorem buf_end_is_negated_end:
  fixes s t :: machine
  shows "sizeof_mem_ref_t = 32 \<and>
     buf_base (event_thread_init c base junk f) = base \<and>
     buf_ptr (event_thread_init c base junk f) = base \<and>
     buf_end (event_thread_init c base junk f) = - (base + of_nat (c * sizeof_mem_ref_t)) \<and>
     (running c s \<longrightarrow>
        buf_end s = - (buf_base s + of_nat (c * sizeof_mem_ref_t)) \<and>
        (\<exists>s'. exec c None (instrument_mem inst pos w) s = Some s' \<and>
              buf_base s' = buf_base s \<and>
              buf_end s' = - (buf_base s' + of_nat (c * sizeof_mem_ref_t)))) \<and>
     (buffer_ok c s \<longrightarrow>
        (\<exists>s'. memtrace c s = Some s' \<and> buf_ptr s' = buf_base s' \<and> buf_base s' = buf_base s \<and>
              buf_end s' = - (buf_base s' + of_nat (c * sizeof_mem_ref_t)))) \<and>
     (running c s \<longrightarrow>
        (\<exists>s'. exec c None (take 14 (instrument_mem inst pos w)) s = Some s' \<and>
              buf_ptr s' = buf_ptr s + of_nat sizeof_mem_ref_t \<and>
              xcx s' = buf_ptr s' + buf_end s' \<and>
              (xcx s' = 0 \<longleftrightarrow> buf_ptr s' = buf_base s' + of_nat (c * sizeof_mem_ref_t)) \<and>
              (xcx s' = 0 \<longleftrightarrow> Suc (filled s) = c))) \<and>
     instrument_mem inst pos w ! 14 = Jecxz Call_label \<and>
     exec c None (drop 14 (instrument_mem inst pos w)) t =
       (if xcx t = 0
        then map_option (\<lambda>t'. t'\<lparr>xbx := slot_2 t', xcx := slot_3 t'\<rparr>)
               (clean_call c (t\<lparr>xcx := label_pc Restore_label\<rparr>))
        else Some (t\<lparr>xbx := slot_2 t, xcx := slot_3 t\<rparr>)) \<and>
     (running c s \<longrightarrow>
        exec c None (instrument_mem inst pos w) s =
          (if buf_ptr s + of_nat sizeof_mem_ref_t = buf_base s + of_nat (c * sizeof_mem_ref_t)
           then clean_call c
                  (s\<lparr>buf := (buf s)[filled s :=
                            mem_ref_of inst w (if w then dsts inst ! pos else srcs inst ! pos)],
                     buf_ptr := buf_ptr s + of_nat sizeof_mem_ref_t,
                     slot_2 := xbx s, slot_3 := xcx s\<rparr>)
           else Some
                  (s\<lparr>buf := (buf s)[filled s :=
                            mem_ref_of inst w (if w then dsts inst ! pos else srcs inst ! pos)],
                     buf_ptr := buf_ptr s + of_nat sizeof_mem_ref_t,
                     slot_2 := xbx s, slot_3 := xcx s\<rparr>)))"
proof (intro conjI impI)
  show "sizeof_mem_ref_t = 32" by (simp add: sizeof_mem_ref_t_def)
  show "buf_base (event_thread_init c base junk f) = base"
    and "buf_ptr (event_thread_init c base junk f) = base"
    by (simp_all add: event_thread_init_def)
  show "buf_end (event_thread_init c base junk f) = - (base + of_nat (c * sizeof_mem_ref_t))"
    by (simp only: event_thread_init_def end_address) simp
  show "instrument_mem inst pos w ! 14 = Jecxz Call_label"
    by (simp add: instrument_mem_def Let_def)
  show "exec c None (drop 14 (instrument_mem inst pos w)) t =
       (if xcx t = 0
        then map_option (\<lambda>t'. t'\<lparr>xbx := slot_2 t', xcx := slot_3 t'\<rparr>)
               (clean_call c (t\<lparr>xcx := label_pc Restore_label\<rparr>))
        else Some (t\<lparr>xbx := slot_2 t, xcx := slot_3 t\<rparr>))"
    by (rule exec_divert)
next
  assume r: "running c s"
  then show "buf_end s = - (buf_base s + of_nat (c * sizeof_mem_ref_t))"
    by (simp only: running_def buffer_ok_def end_address)
next
  assume r: "running c s"
  then have e: "buf_end s = - (buf_base s + of_nat (c * sizeof_mem_ref_t))"
    by (simp only: running_def buffer_ok_def end_address)
  obtain s' where "exec c None (instrument_mem inst pos w) s = Some s'"
    and "grows c s [mem_ref_of inst w (if w then dsts inst ! pos else srcs inst ! pos)] s'"
    using fast_path_grows [OF r] by blast
  then show "\<exists>s'. exec c None (instrument_mem inst pos w) s = Some s' \<and>
              buf_base s' = buf_base s \<and>
              buf_end s' = - (buf_base s' + of_nat (c * sizeof_mem_ref_t))"
    using e by (simp add: grows_def)
next
  assume ok: "buffer_ok c s"
  then have e: "buf_end s = - (buf_base s + of_nat (c * sizeof_mem_ref_t))"
    by (simp only: buffer_ok_def end_address)
  show "\<exists>s'. memtrace c s = Some s' \<and> buf_ptr s' = buf_base s' \<and> buf_base s' = buf_base s \<and>
              buf_end s' = - (buf_base s' + of_nat (c * sizeof_mem_ref_t))"
    using e by (simp add: memtrace_ok [OF ok])
next
  assume r: "running c s"
  then have e: "buf_end s = - (buf_base s + of_nat (c * sizeof_mem_ref_t))"
    by (simp only: running_def buffer_ok_def end_address)
  have t: "buf_ptr s + of_nat sizeof_mem_ref_t + buf_end s = 0
        \<longleftrightarrow> buf_ptr s + of_nat sizeof_mem_ref_t = buf_base s + of_nat (c * sizeof_mem_ref_t)"
    using e by (rule end_test)
  show "\<exists>s'. exec c None (take 14 (instrument_mem inst pos w)) s = Some s' \<and>
              buf_ptr s' = buf_ptr s + of_nat sizeof_mem_ref_t \<and>
              xcx s' = buf_ptr s' + buf_end s' \<and>
              (xcx s' = 0 \<longleftrightarrow> buf_ptr s' = buf_base s' + of_nat (c * sizeof_mem_ref_t)) \<and>
              (xcx s' = 0 \<longleftrightarrow> Suc (filled s) = c)"
    using t reached_end [OF r]
    by (simp add: exec_stores [OF r] add.commute)
next
  assume r: "running c s"
  show "exec c None (instrument_mem inst pos w) s =
          (if buf_ptr s + of_nat sizeof_mem_ref_t = buf_base s + of_nat (c * sizeof_mem_ref_t)
           then clean_call c
                  (s\<lparr>buf := (buf s)[filled s :=
                            mem_ref_of inst w (if w then dsts inst ! pos else srcs inst ! pos)],
                     buf_ptr := buf_ptr s + of_nat sizeof_mem_ref_t,
                     slot_2 := xbx s, slot_3 := xcx s\<rparr>)
           else Some
                  (s\<lparr>buf := (buf s)[filled s :=
                            mem_ref_of inst w (if w then dsts inst ! pos else srcs inst ! pos)],
                     buf_ptr := buf_ptr s + of_nat sizeof_mem_ref_t,
                     slot_2 := xbx s, slot_3 := xcx s\<rparr>))"
    unfolding reached_end [OF r] exec_fast_path [OF r] Let_def clean_call_def by (rule refl)
qed

theorem buf_end_is_negated_end_witness:
  "running 2 (fresh 2) \<and> buffer_ok 2 (fresh 2) \<and> running 2 half_full \<and>
   buf_end (event_thread_init 2 4096 (\<lambda>_. zero_mem_ref) new_log) = - (4096 + 64) \<and>
   (\<exists>s'. exec 2 None (take 14 (instrument_mem (load_instr 100 1000) 0 False)) (fresh 2) = Some s' \<and>
         buf_ptr s' = 4128 \<and> xcx s' \<noteq> 0) \<and>
   (\<exists>s'. exec 2 None (take 14 (instrument_mem (store_instr 104 1008) 0 True)) half_full = Some s' \<and>
         buf_ptr s' = 4160 \<and> xcx s' = 0) \<and>
   (\<exists>s'. exec 2 None (instrument_mem (store_instr 104 1008) 0 True) half_full = Some s' \<and>
         buf_base s' = 4096 \<and> buf_end s' = - (4096 + 64)) \<and>
   (\<exists>s'. memtrace 2 (fresh 2) = Some s' \<and> buf_ptr s' = 4096 \<and> buf_end s' = - (4096 + 64))"
proof -
  have r: "running 2 (fresh 2)" by (simp add: fresh_def running_start)
  then have ok: "buffer_ok 2 (fresh 2)" by (simp add: running_def)
  have rh: "running 2 half_full" using half_full_ok by (simp add: running_def)
  have b: "buf_base (fresh 2) = 4096" "buf_ptr (fresh 2) = 4096"
    "buf_base half_full = 4096" "buf_ptr half_full = 4128"
    by (simp_all add: fresh_def thread_start_def event_thread_init_def half_full_def)
  note a = buf_end_is_negated_end [of 2 4096 "\<lambda>_. zero_mem_ref" new_log "fresh 2"
      "load_instr 100 1000" 0 False "fresh 2"]
  note h = buf_end_is_negated_end [of 2 4096 "\<lambda>_. zero_mem_ref" new_log half_full
      "store_instr 104 1008" 0 True half_full]
  have 1: "buf_end (event_thread_init 2 4096 (\<lambda>_. zero_mem_ref) new_log) = - (4096 + 64)"
    using a by (simp add: sizeof_mem_ref_t_def)
  have 2: "\<exists>s'. exec 2 None (take 14 (instrument_mem (load_instr 100 1000) 0 False)) (fresh 2) = Some s' \<and>
         buf_ptr s' = 4128 \<and> xcx s' \<noteq> 0"
    using a r b by (auto simp add: sizeof_mem_ref_t_def fresh_filled)
  have 3: "\<exists>s'. exec 2 None (take 14 (instrument_mem (store_instr 104 1008) 0 True)) half_full = Some s' \<and>
         buf_ptr s' = 4160 \<and> xcx s' = 0"
    using h rh b by (auto simp add: sizeof_mem_ref_t_def half_full_ok)
  have 4: "\<exists>s'. exec 2 None (instrument_mem (store_instr 104 1008) 0 True) half_full = Some s' \<and>
         buf_base s' = 4096 \<and> buf_end s' = - (4096 + 64)"
    using h rh b by (auto simp add: sizeof_mem_ref_t_def)
  have 5: "\<exists>s'. memtrace 2 (fresh 2) = Some s' \<and> buf_ptr s' = 4096 \<and> buf_end s' = - (4096 + 64)"
    using a ok b by (auto simp add: sizeof_mem_ref_t_def)
  show ?thesis using r ok rh 1 2 3 4 5 by blast
qed

text \<open>
  C7.  Threads exit concurrently, under every schedule of their statements.  In every
  configuration reached, the threads between the return of \<open>dr_mutex_lock\<close> and the
  return of \<open>dr_mutex_unlock\<close> are one if the mutex is held and none otherwise: the
  load of the global counter and the store of the sum happen only while the mutex is
  held, by the one thread that holds it.  A thread past its call of \<open>memtrace\<close> has
  the dumped data, so the dump comes first; the global counter has grown by the
  counters of exactly the threads whose store has happened, each counted once; and
  as long as some thread has not exited, some thread can take a step.  When all
  threads have exited, the mutex is free, the global counter has grown by the sum of
  the numbers of references the threads recorded, and each thread's log holds the
  lines of its references.  A thread that exits alone goes through its statements to
  the result of \<open>event_thread_exit\<close>.
\<close>

theorem global_count_is_sum:
  fixes s :: machine
  assumes "0 < c" "c < 2 ^ 31" "\<not> mutex_held g"
    and "list_all2 (\<lambda>spec t. thread_run c spec = Some (e_data t) \<and> e_pc t = At_memtrace) specs ts"
    and "teardown c sched (g, ts) = (g', ts')"
  shows "length ts' = length ts \<and>
     length (filter in_critical_section ts') = (if mutex_held g' then 1 else 0) \<and>
     list_all (\<lambda>t'. if in_critical_section t' then mutex_held g' else True) ts' \<and>
     list_all2 (\<lambda>t t'. if e_pc t' = At_memtrace then e_data t' = e_data t
                        else memtrace c (e_data t) = Some (e_data t')) ts ts' \<and>
     num_refs_g g' =
       num_refs_g g + sum_list (map (\<lambda>t'. if has_added t' then num_refs (e_data t') else 0) ts') \<and>
     ((\<exists>i<length ts'. exit_step c g' (ts' ! i) \<noteq> None) \<or> list_all (\<lambda>t'. e_pc t' = Exited) ts') \<and>
     (list_all (\<lambda>t'. e_pc t' = Exited) ts' \<longrightarrow>
        \<not> mutex_held g' \<and>
        num_refs_g g' =
          num_refs_g g +
          of_nat (sum_list (map (\<lambda>spec. length (concat (map traced_refs (t_code spec)))) specs)) \<and>
        list_all2 (\<lambda>spec t'.
            ref_lines (log (e_data t')) = map ref_line (concat (map traced_refs (t_code spec))) \<and>
            num_refs (e_data t') = of_nat (length (concat (map traced_refs (t_code spec))))) specs ts') \<and>
     (buffer_ok c s \<longrightarrow>
        (\<exists>g1 s1. event_thread_exit c g s = Some (g1, s1) \<and>
           teardown c [0, 0, 0, 0, 0] (g, [\<lparr>e_pc = At_memtrace, e_data = s, e_tmp = x\<rparr>]) =
             (g1, [\<lparr>e_pc = Exited, e_data = s1, e_tmp = num_refs_g g\<rparr>])))"
proof -
  let ?f = "\<lambda>t'. if has_added t' then num_refs (e_data t') else 0"
  let ?n = "\<lambda>spec. length (concat (map traced_refs (t_code spec)))"
  have "list_all (\<lambda>t. e_pc t = At_memtrace \<and> buffer_ok c (e_data t)) ts"
    unfolding list_all_length
  proof (intro allI impI)
    fix i assume i: "i < length ts"
    have "length specs = length ts" using assms(4) by (rule list_all2_lengthD)
    then have r: "thread_run c (specs ! i) = Some (e_data (ts ! i))" "e_pc (ts ! i) = At_memtrace"
      using list_all2_nthD2 [OF assms(4) i] by simp_all
    have "running c (e_data (ts ! i))"
      using thread_run_grows [OF assms(1,2), of "specs ! i"] r(1) by auto
    then show "e_pc (ts ! i) = At_memtrace \<and> buffer_ok c (e_data (ts ! i))"
      using r(2) by (simp add: running_def)
  qed
  with assms(3) have "teardown_inv c g ts (g, ts)" by (rule inv_start)
  then have inv: "teardown_inv c g ts (g', ts')"
    using teardown_inv_run [of c g ts g ts sched] assms(5) by simp
  have 1: "length ts' = length ts"
    using teardown_length [of c sched g ts] assms(5) by simp
  have 2: "length (filter in_critical_section ts') = (if mutex_held g' then 1 else 0)"
    using inv by (simp add: teardown_inv_def)
  have 3: "list_all (\<lambda>t'. if in_critical_section t' then mutex_held g' else True) ts'"
    using 2 by (rule critical_section_locked)
  have "list_all2 (\<lambda>t0 t. buffer_ok c (e_data t0) \<and>
                     (if e_pc t = At_memtrace then e_data t = e_data t0
                      else memtrace c (e_data t0) = Some (e_data t))) ts ts'"
    using inv by (simp add: teardown_inv_def)
  then have 4: "list_all2 (\<lambda>t t'. if e_pc t' = At_memtrace then e_data t' = e_data t
                        else memtrace c (e_data t) = Some (e_data t')) ts ts'"
    by (rule list_all2_mono) simp
  have 5: "num_refs_g g' = num_refs_g g + sum_list (map ?f ts')"
    using inv by (simp add: teardown_inv_def)
  have 6: "(\<exists>i<length ts'. exit_step c g' (ts' ! i) \<noteq> None) \<or> list_all (\<lambda>t'. e_pc t' = Exited) ts'"
    using inv by (rule teardown_progress)
  have 7: "\<not> mutex_held g' \<and>
        num_refs_g g' = num_refs_g g + of_nat (sum_list (map ?n specs)) \<and>
        list_all2 (\<lambda>spec t'.
            ref_lines (log (e_data t')) = map ref_line (concat (map traced_refs (t_code spec))) \<and>
            num_refs (e_data t') = of_nat (?n spec)) specs ts'"
    if ex: "list_all (\<lambda>t'. e_pc t' = Exited) ts'"
  proof -
    have "filter in_critical_section ts' = []"
      using ex by (auto simp add: filter_empty_conv list_all_iff in_critical_section_def)
    then have a: "\<not> mutex_held g'" using 2 by (simp split: if_splits)
    have each: "list_all2 (\<lambda>spec t'.
            ref_lines (log (e_data t')) = map ref_line (concat (map traced_refs (t_code spec))) \<and>
            num_refs (e_data t') = of_nat (?n spec)) specs ts'"
      using assms(1,2,4) 4 ex by (rule teardown_all_exited)
    have "map ?f ts' = map (\<lambda>t'. num_refs (e_data t')) ts'"
      using ex by (simp add: list_all_iff has_added_def)
    then have e1: "sum_list (map ?f ts') = sum_list (map (\<lambda>t'. num_refs (e_data t')) ts')"
      by (rule arg_cong)
    have e2: "sum_list (map (\<lambda>t'. num_refs (e_data t')) ts') = of_nat (sum_list (map ?n specs))"
      by (rule sum_list_of_nat) (rule list_all2_mono [OF each], simp)
    have "num_refs_g g' = num_refs_g g + of_nat (sum_list (map ?n specs))"
      unfolding 5 e1 e2 by (rule refl)
    then show ?thesis using a each by blast
  qed
  have 8: "\<exists>g1 s1. event_thread_exit c g s = Some (g1, s1) \<and>
           teardown c [0, 0, 0, 0, 0] (g, [\<lparr>e_pc = At_memtrace, e_data = s, e_tmp = x\<rparr>]) =
             (g1, [\<lparr>e_pc = Exited, e_data = s1, e_tmp = num_refs_g g\<rparr>])"
    if "buffer_ok c s"
    using that assms(3) by (rule exit_alone)
  show ?thesis
    using 1 2 3 4 5 6 7 8 by blast
qed

theorem global_count_is_sum_witness:
  "(0::nat) < 2 \<and> (2::nat) < 2 ^ 31 \<and> \<not> mutex_held no_refs \<and>
   (\<exists>ts g1 ts1 g' ts'.
      list_all2 (\<lambda>spec t. thread_run 2 spec = Some (e_data t) \<and> e_pc t = At_memtrace)
        [scenario, two_accesses] ts \<and>
      teardown 2 [0, 1, 1, 0, 0] (no_refs, ts) = (g1, ts1) \<and>
      mutex_held g1 \<and> map e_pc ts1 = [At_lock, At_load] \<and> num_refs_g g1 = 0 \<and>
      teardown 2 [0, 1, 1, 0, 0, 1, 1, 1, 0, 0, 0, 0] (no_refs, ts) = (g', ts') \<and>
      map e_pc ts' = [Exited, Exited] \<and> \<not> mutex_held g' \<and> num_refs_g g' = 7 \<and>
      map (\<lambda>t. num_refs (e_data t)) ts' = [5, 2]) \<and>
   (\<exists>t g' ts'.
      thread_run 2 scenario = Some (e_data t) \<and> e_pc t = At_memtrace \<and>
      teardown 2 [0, 0, 0, 0, 0] (no_refs, [t]) = (g', ts') \<and>
      map e_pc ts' = [Exited] \<and> \<not> mutex_held g' \<and> num_refs_g g' = 5)"
proof -
  have h: "(0::nat) < 2" "(2::nat) < 2 ^ 31" "\<not> mutex_held no_refs"
    by (simp_all add: no_refs_def)
  have n: "length (concat (map traced_refs (t_code scenario))) = 5"
    by (simp add: scenario_def traced_refs_def load_instr_def store_instr_def)
  obtain s0 where s0: "thread_run 2 scenario = Some s0" and r0: "running 2 s0"
    using thread_run_grows [OF h(1,2), of scenario] by blast
  obtain s1 where s1: "thread_run 2 two_accesses = Some s1" and r1: "running 2 s1"
    using thread_run_grows [OF h(1,2), of two_accesses] by blast
  obtain m0 where m0: "memtrace 2 s0 = Some m0"
    using memtrace_ok [of 2 s0] r0 by (simp add: running_def)
  obtain m1 where m1: "memtrace 2 s1 = Some m1"
    using memtrace_ok [of 2 s1] r1 by (simp add: running_def)
  define t0 where "t0 = \<lparr>e_pc = At_memtrace, e_data = s0, e_tmp = 0\<rparr>"
  define t1 where "t1 = \<lparr>e_pc = At_memtrace, e_data = s1, e_tmp = 0\<rparr>"
  have init: "list_all2 (\<lambda>spec t. thread_run 2 spec = Some (e_data t) \<and> e_pc t = At_memtrace)
        [scenario, two_accesses] [t0, t1]"
    by (simp add: t0_def t1_def s0 s1)
  have init1: "list_all2 (\<lambda>spec t. thread_run 2 spec = Some (e_data t) \<and> e_pc t = At_memtrace)
        [scenario] [t0]"
    by (simp add: t0_def s0)
  have e3: "teardown 2 [0, 0, 0, 0, 0] (no_refs, [t0]) =
      (\<lparr>mutex_held = False, num_refs_g = num_refs m0\<rparr>,
       [\<lparr>e_pc = Exited, e_data = m0, e_tmp = 0\<rparr>])"
    by (simp add: t0_def exit_step_def m0 dr_mutex_lock_def dr_mutex_unlock_def no_refs_def)
  have e1: "teardown 2 [0, 1, 1, 0, 0] (no_refs, [t0, t1]) =
      (\<lparr>mutex_held = True, num_refs_g = 0\<rparr>,
       [\<lparr>e_pc = At_lock, e_data = m0, e_tmp = 0\<rparr>, \<lparr>e_pc = At_load, e_data = m1, e_tmp = 0\<rparr>])"
    by (simp add: t0_def t1_def exit_step_def m0 m1 dr_mutex_lock_def dr_mutex_unlock_def
          no_refs_def)
  have e2: "teardown 2 [0, 1, 1, 0, 0, 1, 1, 1, 0, 0, 0, 0] (no_refs, [t0, t1]) =
      (\<lparr>mutex_held = False, num_refs_g = num_refs m1 + num_refs m0\<rparr>,
       [\<lparr>e_pc = Exited, e_data = m0, e_tmp = num_refs m1\<rparr>,
        \<lparr>e_pc = Exited, e_data = m1, e_tmp = 0\<rparr>])"
    by (simp add: t0_def t1_def exit_step_def m0 m1 dr_mutex_lock_def dr_mutex_unlock_def
          no_refs_def)
  note c2 = conjunct2
  have x2: "list_all (\<lambda>t'. e_pc t' = Exited)
      [\<lparr>e_pc = Exited, e_data = m0, e_tmp = num_refs m1\<rparr>,
        \<lparr>e_pc = Exited, e_data = m1, e_tmp = 0\<rparr>]"
    by simp
  have x3: "list_all (\<lambda>t'. e_pc t' = Exited) [\<lparr>e_pc = Exited, e_data = m0, e_tmp = 0\<rparr>]"
    by simp
  have a: "num_refs m1 + num_refs m0 = 7 \<and> num_refs m0 = 5 \<and> num_refs m1 = 2"
    using global_count_is_sum [OF h init e2, THEN c2, THEN c2, THEN c2, THEN c2, THEN c2, THEN c2,
        THEN conjunct1, THEN mp, OF x2]
    by (simp add: n two_accesses_refs no_refs_def)
  have b: "num_refs m0 = 5"
    using global_count_is_sum [OF h init1 e3, THEN c2, THEN c2, THEN c2, THEN c2, THEN c2, THEN c2,
        THEN conjunct1, THEN mp, OF x3]
    by (simp add: n no_refs_def)
  have 1: "\<exists>ts g1 ts1 g' ts'.
      list_all2 (\<lambda>spec t. thread_run 2 spec = Some (e_data t) \<and> e_pc t = At_memtrace)
        [scenario, two_accesses] ts \<and>
      teardown 2 [0, 1, 1, 0, 0] (no_refs, ts) = (g1, ts1) \<and>
      mutex_held g1 \<and> map e_pc ts1 = [At_lock, At_load] \<and> num_refs_g g1 = 0 \<and>
      teardown 2 [0, 1, 1, 0, 0, 1, 1, 1, 0, 0, 0, 0] (no_refs, ts) = (g', ts') \<and>
      map e_pc ts' = [Exited, Exited] \<and> \<not> mutex_held g' \<and> num_refs_g g' = 7 \<and>
      map (\<lambda>t. num_refs (e_data t)) ts' = [5, 2]"
    using init a by (intro exI [of _ "[t0, t1]"]) (simp only: e1 e2, simp)
  have 2: "\<exists>t g' ts'.
      thread_run 2 scenario = Some (e_data t) \<and> e_pc t = At_memtrace \<and>
      teardown 2 [0, 0, 0, 0, 0] (no_refs, [t]) = (g', ts') \<and>
      map e_pc ts' = [Exited] \<and> \<not> mutex_held g' \<and> num_refs_g g' = 5"
    using init1 b by (intro exI [of _ t0]) (simp only: e3, simp)
  show ?thesis by (intro conjI h 1 2)
qed

text \<open>
  C8, without the report.  Whether or not the log can be written, a dump returns,
  rewinds \<open>buf_ptr\<close> to \<open>buf_base\<close> and zeroes the buffer, so that the state is in order
  for the next fast path, adds the number of records to the counter and changes
  nothing else but the log; when the log cannot be written, the log is as it was and
  the counter counts the lost records.
\<close>

theorem failed_write_is_ignored:
  fixes s :: machine
  assumes "buffer_ok c s"
  shows "\<exists>s'. memtrace c s = Some s' \<and> running c s' \<and>
     buf_ptr s' = buf_base s' \<and> buf s' = replicate c zero_mem_ref \<and>
     num_refs s' = num_refs s + of_nat (length (pending s)) \<and>
     xbx s' = xbx s \<and> xcx s' = xcx s \<and> slot_2 s' = slot_2 s \<and> slot_3 s' = slot_3 s \<and>
     tls_field s' = tls_field s \<and> buf_base s' = buf_base s \<and> buf_end s' = buf_end s \<and>
     (\<not> writable (log s) \<longrightarrow> log s' = log s)"
proof -
  let ?s' = "s\<lparr>log := dump_refs (pending s) (dr_fprintf (log s) Format_line),
             buf := replicate c zero_mem_ref,
             num_refs := num_refs s + of_nat (filled s),
             buf_ptr := buf_base s\<rparr>"
  have m: "memtrace c s = Some ?s'" using assms by (rule memtrace_ok)
  have "running c ?s'" using assms by (rule buffer_ok_reset) simp_all
  then show ?thesis
    using m length_pending [OF assms] by (simp add: dump_refs_unwritable dr_fprintf_def)
qed

theorem failed_write_is_ignored_witness:
  "buffer_ok 2 (unwritable half_full) \<and> \<not> writable (log (unwritable half_full)) \<and>
   length (pending (unwritable half_full)) = 1 \<and>
   (\<exists>s'. memtrace 2 (unwritable half_full) = Some s' \<and> running 2 s' \<and>
      log s' = \<lparr>lines = [], writable = False\<rparr> \<and>
      buf_ptr s' = buf_base s' \<and> buf s' = [zero_mem_ref, zero_mem_ref] \<and> num_refs s' = 1)"
proof -
  have ok: "buffer_ok 2 (unwritable half_full)"
    using half_full_ok(1) by (simp add: buffer_ok_def unwritable_def filled_def)
  have w: "\<not> writable (log (unwritable half_full))" by (simp add: unwritable_def)
  have p: "length (pending (unwritable half_full)) = 1"
    using length_pending [OF ok] half_full_ok(3) by (simp add: filled_def unwritable_def)
  have e: "replicate 2 zero_mem_ref = [zero_mem_ref, zero_mem_ref]"
    by (simp add: numeral_2_eq_2)
  show ?thesis
    using ok w p failed_write_is_ignored [OF ok] unfolding p e
    by (auto simp add: unwritable_def half_full_def new_log_def)
qed

text \<open>
  Nothing reports the failure.  For a thread with one record in its buffer and a log
  that cannot be written, the dump changes the buffer, the counter and \<open>buf_ptr\<close> and
  nothing else, and its result is the result of the successful dump with the log put
  back: no effect of the dump tells a failed write from a successful one, apart from
  the lines that are missing.
\<close>

theorem write_failure_counterexample:
  "\<not> writable (log (unwritable half_full)) \<and>
   pending (unwritable half_full) = [\<lparr>write_m = False, addr = 1000, size_m = 4, pc = 100\<rparr>] \<and>
   memtrace 2 (unwritable half_full) =
     Some ((unwritable half_full)\<lparr>buf := [zero_mem_ref, zero_mem_ref], num_refs := 1, buf_ptr := 4096\<rparr>) \<and>
   memtrace 2 (unwritable half_full) =
     map_option (\<lambda>s'. s'\<lparr>log := log (unwritable half_full)\<rparr>) (memtrace 2 half_full)"
proof -
  have ok: "buffer_ok 2 (unwritable half_full)"
    using half_full_ok(1) by (simp add: buffer_ok_def unwritable_def filled_def)
  have w: "\<not> writable (log (unwritable half_full))" by (simp add: unwritable_def)
  have f: "filled (unwritable half_full) = 1"
    using half_full_ok(3) by (simp add: filled_def unwritable_def)
  have e: "replicate 2 zero_mem_ref = [zero_mem_ref, zero_mem_ref]"
    by (simp add: numeral_2_eq_2)
  have p: "pending (unwritable half_full) = [\<lparr>write_m = False, addr = 1000, size_m = 4, pc = 100\<rparr>]"
    by (simp add: pending_def f) (simp add: unwritable_def half_full_def)
  have 1: "memtrace 2 (unwritable half_full) =
     Some ((unwritable half_full)\<lparr>buf := [zero_mem_ref, zero_mem_ref], num_refs := 1, buf_ptr := 4096\<rparr>)"
    unfolding memtrace_unwritable [OF ok w] f e
    by (simp add: unwritable_def half_full_def)
  have 2: "memtrace 2 half_full =
     Some (half_full\<lparr>log := dump_refs (pending half_full) (dr_fprintf (log half_full) Format_line),
             buf := [zero_mem_ref, zero_mem_ref], num_refs := 1, buf_ptr := 4096\<rparr>)"
    unfolding memtrace_ok [OF half_full_ok(1)] half_full_ok(3) e
    by (simp add: half_full_def)
  show ?thesis
    using w p unfolding 1 2 by (simp add: unwritable_def)
qed

text \<open>
  C9.  For an instruction whose application address is \<open>NULL\<close>, \<open>event_bb_insert\<close>
  inserts nothing, and running what it inserted leaves the thread's state as it was,
  whatever the operands of the instruction are.
\<close>

theorem null_app_pc_is_skipped:
  assumes "app_pc inst = 0"
  shows "event_bb_insert inst = [] \<and> run_instr c inst s = Some s"
  using assms by (simp add: event_bb_insert_def run_instr_def)

theorem null_app_pc_is_skipped_witness:
  "app_pc (update_instr 0 1000) = 0 \<and>
   reads_memory (update_instr 0 1000) \<and> writes_memory (update_instr 0 1000) \<and>
   length (mem_refs (update_instr 0 1000)) = 2 \<and>
   event_bb_insert (update_instr 0 1000) = [] \<and>
   run_instr 2 (update_instr 0 1000) (fresh 2) = Some (fresh 2)"
proof -
  have h: "app_pc (update_instr 0 1000) = 0" by (simp add: update_instr_def)
  show ?thesis
    using h null_app_pc_is_skipped [OF h, of 2 "fresh 2"]
    by (simp add: update_instr_def mem_refs_def)
qed

text \<open>
  C10.  Take an instruction with an application address that reads and writes
  memory, and a memory operand that is its source \<open>i\<close> and its destination \<open>j\<close>.  Among
  the lines that running the inserted code adds, the line at the position of source
  \<open>i\<close> is a read and the line at the position of destination \<open>j\<close>, which comes later,
  is a write; both have the operand's address and size and the application address
  of the instruction.
\<close>

theorem read_then_write_records:
  fixes s :: machine
  assumes "running c s" "writable (log s)" "app_pc inst \<noteq> 0"
    "reads_memory inst" "writes_memory inst"
    "i < length (srcs inst)" "j < length (dsts inst)"
    "srcs inst ! i = ref" "dsts inst ! j = ref" "is_memory_reference ref"
  shows "\<exists>s' new. run_instr c inst s = Some s' \<and> recorded s' = recorded s @ new \<and>
     length (filter is_memory_reference (take i (srcs inst)))
       < length (filter is_memory_reference (srcs inst)) +
         length (filter is_memory_reference (take j (dsts inst))) \<and>
     length (filter is_memory_reference (srcs inst)) +
         length (filter is_memory_reference (take j (dsts inst))) < length new \<and>
     new ! length (filter is_memory_reference (take i (srcs inst)))
       = Ref_line (app_pc inst) CHR ''r'' (mem_size_in_bytes ref) (mem_addr ref) \<and>
     new ! (length (filter is_memory_reference (srcs inst)) +
            length (filter is_memory_reference (take j (dsts inst))))
       = Ref_line (app_pc inst) CHR ''w'' (mem_size_in_bytes ref) (mem_addr ref)"
proof -
  let ?S = "filter is_memory_reference (srcs inst)"
  let ?D = "filter is_memory_reference (dsts inst)"
  let ?a = "length (filter is_memory_reference (take i (srcs inst)))"
  let ?b = "length (filter is_memory_reference (take j (dsts inst)))"
  let ?rd = "\<lambda>ref. Ref_line (app_pc inst) CHR ''r'' (mem_size_in_bytes ref) (mem_addr ref)"
  let ?wr = "\<lambda>ref. Ref_line (app_pc inst) CHR ''w'' (mem_size_in_bytes ref) (mem_addr ref)"
  let ?new = "map ?rd ?S @ map ?wr ?D"
  have mi: "is_memory_reference (srcs inst ! i)" and mj: "is_memory_reference (dsts inst ! j)"
    using assms(8-10) by simp_all
  have a: "?a < length ?S" and sa: "?S ! ?a = ref"
    using filter_nth_pos [of i "srcs inst" is_memory_reference, OF assms(6) mi] assms(8)
    by simp_all
  have b: "?b < length ?D" and sb: "?D ! ?b = ref"
    using filter_nth_pos [of j "dsts inst" is_memory_reference, OF assms(7) mj] assms(9)
    by simp_all
  obtain s' where run: "run_instr c inst s = Some s'"
    and rec: "recorded s' = recorded s @ map ref_line (traced_refs inst)"
    using run_instr_recorded [OF assms(1,2)] by blast
  have "map ref_line (traced_refs inst) = ?new"
    using assms(3-5) by (simp add: traced_refs_def mem_ref_of_def ref_line_def comp_def)
  then have rec': "recorded s' = recorded s @ ?new" using rec by simp
  have 1: "?new ! ?a = ?rd ref" using a sa by (simp add: nth_append)
  have 2: "?new ! (length ?S + ?b) = ?wr ref" using b sb by (simp add: nth_append)
  have 3: "length ?S + ?b < length ?new" using b by simp
  have 4: "?a < length ?S + ?b" using a by simp
  show ?thesis using run rec' 1 2 3 4 by blast
qed

theorem read_then_write_records_witness:
  "running 2 (fresh 2) \<and> writable (log (fresh 2)) \<and> app_pc (update_instr 100 1000) \<noteq> 0 \<and>
   reads_memory (update_instr 100 1000) \<and> writes_memory (update_instr 100 1000) \<and>
   srcs (update_instr 100 1000) ! 0 = dsts (update_instr 100 1000) ! 0 \<and>
   is_memory_reference (srcs (update_instr 100 1000) ! 0) \<and>
   recorded (fresh 2) = [] \<and>
   (\<exists>s'. run_instr 2 (update_instr 100 1000) (fresh 2) = Some s' \<and>
      length (recorded s') = 2 \<and>
      recorded s' ! 0 = Ref_line 100 CHR ''r'' 4 1000 \<and>
      recorded s' ! 1 = Ref_line 100 CHR ''w'' 4 1000)"
proof -
  let ?u = "update_instr 100 1000"
  let ?ref = "\<lparr>is_memory_reference = True, mem_addr = 1000, mem_size_in_bytes = 4\<rparr>"
  have r: "running 2 (fresh 2)" by (simp add: fresh_def running_start)
  have w: "writable (log (fresh 2))" by (simp add: fresh_facts new_log_def)
  have h: "app_pc ?u \<noteq> 0" "reads_memory ?u" "writes_memory ?u"
    "0 < length (srcs ?u)" "0 < length (dsts ?u)"
    "srcs ?u ! 0 = ?ref" "dsts ?u ! 0 = ?ref" "is_memory_reference ?ref"
    by (simp_all add: update_instr_def)
  have e: "recorded (fresh 2) = []"
    by (simp add: fresh_def start_facts new_log_def ref_lines_def)
  have k: "length (map ref_line (traced_refs ?u)) = 2"
    by (simp add: traced_refs_def update_instr_def)
  obtain s1 where s1: "run_instr 2 ?u (fresh 2) = Some s1"
    and l: "recorded s1 = recorded (fresh 2) @ map ref_line (traced_refs ?u)"
    using run_instr_recorded [OF r w] by blast
  have len: "length (recorded s1) = 2" using l k e by simp
  show ?thesis
    using r w h(1-3) e read_then_write_records [OF r w h] s1 len
    by (auto simp add: update_instr_def)
qed

end
